(* ===== verification/Py_Prelude.thy ===== *)
theory Py_Prelude
  imports Main "HOL-Library.Sublist"
begin

text \<open>
  The vocabulary the component theories share: errors as values, the operations of Python's
  \<open>str\<close>, \<open>list\<close> and \<open>dict\<close> that the scripts use, and decimal numerals.

  A Python \<open>str\<close> is a \<^typ>\<open>string\<close>, a list of code points below 256. Every character class
  below (white space, line boundaries, word characters) is the one Python uses on those code
  points. Positions are \<^typ>\<open>nat\<close>; where the source can index from the end or past it, the model
  spells the case out.
\<close>

named_theorems py_defs \<open>definitions of the string and container operations\<close>
named_theorems py_simps \<open>rewrite rules on slices, substrings and results\<close>

section \<open>Errors\<close>

text \<open>
  \<open>SystemExit m\<close> is \<open>sys.exit(m)\<close> with a message, \<open>ExitStatus n\<close> is \<open>sys.exit(n)\<close>; the others are
  the built-in exceptions the scripts can raise. An operation that can fail returns
  \<^typ>\<open>'e + 'a\<close> with \<^term>\<open>Inl\<close> for the failure.
\<close>

datatype py_error =
    SystemExit string
  | ExitStatus int
  | ValueError
  | IndexError
  | KeyError
  | TypeError
  | OSError
  | OverflowError
  | ZeroDivisionError

type_synonym 'a result = "py_error + 'a"

definition bindE :: "'e + 'a \<Rightarrow> ('a \<Rightarrow> 'e + 'b) \<Rightarrow> 'e + 'b" where
  "bindE m f = (case m of Inl e \<Rightarrow> Inl e | Inr x \<Rightarrow> f x)"

lemma bindE_simps [simp]:
  "bindE (Inl e) f = Inl e"
  "bindE (Inr x) f = f x"
  by (simp_all add: bindE_def)

lemma bindE_Inr_iff: "bindE m f = Inr y \<longleftrightarrow> (\<exists>x. m = Inr x \<and> f x = Inr y)"
  by (cases m) auto

lemma bindE_Inl_iff: "bindE m f = Inl e \<longleftrightarrow> m = Inl e \<or> (\<exists>x. m = Inr x \<and> f x = Inl e)"
  by (cases m) auto

text \<open>A loop body that may fail, folded over a list: the first failure stops the loop.\<close>

fun foldE :: "('a \<Rightarrow> 's \<Rightarrow> 'e + 's) \<Rightarrow> 'a list \<Rightarrow> 's \<Rightarrow> 'e + 's" where
  "foldE f [] s = Inr s"
| "foldE f (x # xs) s = bindE (f x s) (foldE f xs)"

lemma foldE_append: "foldE f (xs @ ys) s = bindE (foldE f xs s) (foldE f ys)"
  by (induction xs arbitrary: s) (auto simp: bindE_def split: sum.splits)

lemma foldE_map: "foldE f (map g xs) s = foldE (\<lambda>x. f (g x)) xs s"
  by (induction xs arbitrary: s) (auto simp: bindE_def split: sum.splits)

lemma foldE_invariant:
  assumes "foldE f xs s = Inr t" and "I s"
    and "\<And>x u v. x \<in> set xs \<Longrightarrow> I u \<Longrightarrow> f x u = Inr v \<Longrightarrow> I v"
  shows "I t"
  using assms by (induction xs arbitrary: s) (auto simp: bindE_Inr_iff)

fun mapE :: "('a \<Rightarrow> 'e + 'b) \<Rightarrow> 'a list \<Rightarrow> 'e + 'b list" where
  "mapE f [] = Inr []"
| "mapE f (x # xs) = bindE (f x) (\<lambda>y. bindE (mapE f xs) (\<lambda>ys. Inr (y # ys)))"

lemma mapE_Inr_iff: "mapE f xs = Inr ys \<longleftrightarrow> map f xs = map Inr ys"
  by (induction xs arbitrary: ys) (auto simp: bindE_Inr_iff map_eq_Cons_conv)

lemma mapE_Inl: "mapE f xs = Inl e \<Longrightarrow> \<exists>x \<in> set xs. f x = Inl e"
  by (induction xs) (auto simp: bindE_Inl_iff)


section \<open>Characters\<close>

abbreviation newline :: char where "newline \<equiv> CHR 0x0A"
abbreviation tab :: char where "tab \<equiv> CHR 0x09"
abbreviation backslash :: char where "backslash \<equiv> CHR 0x5C"
abbreviation dquote :: char where "dquote \<equiv> CHR 0x22"
abbreviation squote :: char where "squote \<equiv> CHR 0x27"

definition is_digit :: "char \<Rightarrow> bool" where
  "is_digit c \<longleftrightarrow> 48 \<le> (of_char c :: nat) \<and> (of_char c :: nat) \<le> 57"

text \<open>\<open>str.isspace\<close> and the class \<open>\s\<close>.\<close>

definition is_space :: "char \<Rightarrow> bool" where
  "is_space c \<longleftrightarrow> (let n = of_char c :: nat in
     9 \<le> n \<and> n \<le> 13 \<or> 28 \<le> n \<and> n \<le> 32 \<or> n = 133 \<or> n = 160)"

text \<open>The class \<open>\w\<close>: letters, digits, numeric signs and the underscore.\<close>

definition is_word :: "char \<Rightarrow> bool" where
  "is_word c \<longleftrightarrow> (let n = of_char c :: nat in
     48 \<le> n \<and> n \<le> 57 \<or> 65 \<le> n \<and> n \<le> 90 \<or> n = 95 \<or> 97 \<le> n \<and> n \<le> 122
     \<or> n = 170 \<or> n = 178 \<or> n = 179 \<or> n = 181 \<or> n = 185 \<or> n = 186
     \<or> 188 \<le> n \<and> n \<le> 190 \<or> 192 \<le> n \<and> n \<le> 214 \<or> 216 \<le> n \<and> n \<le> 246 \<or> 248 \<le> n)"

definition is_lower_ascii :: "char \<Rightarrow> bool" where
  "is_lower_ascii c \<longleftrightarrow> 97 \<le> (of_char c :: nat) \<and> (of_char c :: nat) \<le> 122"

text \<open>The single characters at which \<open>str.splitlines\<close> breaks.\<close>

definition is_line_break :: "char \<Rightarrow> bool" where
  "is_line_break c \<longleftrightarrow> (let n = of_char c :: nat in
     10 \<le> n \<and> n \<le> 13 \<or> 28 \<le> n \<and> n \<le> 30 \<or> n = 133)"

lemmas char_class_defs [py_defs] =
  is_digit_def is_space_def is_word_def is_lower_ascii_def is_line_break_def

lemma is_digit_imp_word: "is_digit c \<Longrightarrow> is_word c"
  by (simp add: is_digit_def is_word_def Let_def)

lemma is_digit_not_space: "is_digit c \<Longrightarrow> \<not> is_space c"
  by (simp add: is_digit_def is_space_def Let_def)

lemma is_word_not_space: "is_word c \<Longrightarrow> \<not> is_space c"
  by (auto simp: is_word_def is_space_def Let_def)


lemma subseq_middle: "subseq w (a @ w @ b)"
  by (intro list_emb_append2 prefix_imp_subseq) simp


section \<open>Slices and substrings\<close>

text \<open>\<open>s[a:b]\<close> for indices that are not negative; empty when \<open>b \<le> a\<close>.\<close>

definition cut :: "'a list \<Rightarrow> nat \<Rightarrow> nat \<Rightarrow> 'a list" where
  "cut s a b = take (b - a) (drop a s)"

lemma cut_empty [simp]: "b \<le> a \<Longrightarrow> cut s a b = []"
  by (simp add: cut_def)

lemma cut_full [simp]: "cut s 0 (length s) = s"
  by (simp add: cut_def)

lemma cut_to_end: "length s \<le> b \<Longrightarrow> cut s a b = drop a s"
  by (simp add: cut_def)

lemma length_cut: "length (cut s a b) = min b (length s) - a"
  by (auto simp: cut_def)

lemma cut_split: "a \<le> b \<Longrightarrow> b \<le> c \<Longrightarrow> cut s a b @ cut s b c = cut s a c"
proof -
  assume ab: "a \<le> b" and bc: "b \<le> c"
  have "take (c - a) (drop a s) = take ((b - a) + (c - b)) (drop a s)"
    using ab bc by simp
  also have "\<dots> = take (b - a) (drop a s) @ take (c - b) (drop (b - a) (drop a s))"
    by (rule take_add)
  finally show ?thesis using ab by (simp add: cut_def)
qed

lemma cut_drop_split: "a \<le> b \<Longrightarrow> cut s a b @ drop b s = drop a s"
proof -
  assume ab: "a \<le> b"
  have "cut s a b @ drop (b - a) (drop a s) = drop a s"
    unfolding cut_def by (rule append_take_drop_id)
  with ab show ?thesis by simp
qed

lemma cut_Suc: "a < length s \<Longrightarrow> cut s a (Suc a) = [s ! a]"
  by (simp add: cut_def take_Suc_conv_app_nth hd_drop_conv_nth take_Suc)

lemma set_cut_subset: "set (cut s a b) \<subseteq> set s"
  by (auto simp: cut_def dest: in_set_takeD in_set_dropD)

lemma nth_cut: "a + i < b \<Longrightarrow> a + i < length s \<Longrightarrow> cut s a b ! i = s ! (a + i)"
  by (simp add: cut_def)

text \<open>\<open>s[a:b]\<close> with Python's reading of negative bounds.\<close>

definition pyslice :: "'a list \<Rightarrow> int \<Rightarrow> int \<Rightarrow> 'a list" where
  "pyslice s a b =
     (let n = int (length s);
          at = (\<lambda>i. nat (if i < 0 then max 0 (n + i) else i))
      in cut s (at a) (at b))"

text \<open>\<open>s.startswith(p, i)\<close>.\<close>

definition starts_at :: "string \<Rightarrow> string \<Rightarrow> nat \<Rightarrow> bool" where
  "starts_at s p i \<longleftrightarrow> take (length p) (drop i s) = p"

abbreviation starts_with :: "string \<Rightarrow> string \<Rightarrow> bool" where
  "starts_with s p \<equiv> take (length p) s = p"

definition ends_with :: "string \<Rightarrow> string \<Rightarrow> bool" where
  "ends_with s p \<longleftrightarrow> length p \<le> length s \<and> drop (length s - length p) s = p"

lemma starts_with_prefix: "starts_with s p \<longleftrightarrow> prefix p s"
  by (metis append_eq_conv_conj append_take_drop_id prefix_def)

lemma ends_with_suffix: "ends_with s p \<longleftrightarrow> suffix p s"
proof
  assume "ends_with s p"
  then show "suffix p s" by (metis ends_with_def suffix_drop)
next
  assume "suffix p s"
  then show "ends_with s p" by (auto simp: suffix_def ends_with_def)
qed

lemma starts_at_length: "starts_at s p i \<Longrightarrow> p \<noteq> [] \<Longrightarrow> i + length p \<le> length s"
proof -
  assume a: "starts_at s p i" and ne: "p \<noteq> []"
  have "length (take (length p) (drop i s)) = length p"
    using a by (simp add: starts_at_def)
  with ne show ?thesis by (cases "i \<le> length s") auto
qed

lemma starts_at_append: "starts_at s (u @ v) i \<longleftrightarrow> starts_at s u i \<and> starts_at s v (i + length u)"
proof -
  have pre: "starts_at s p k \<longleftrightarrow> prefix p (drop k s)" for p k
    by (simp add: starts_at_def starts_with_prefix)
  show ?thesis
  proof
    assume "starts_at s (u @ v) i"
    then obtain w where "drop i s = u @ v @ w" by (auto simp: pre prefix_def)
    moreover from this have "drop (i + length u) s = v @ w"
      by (metis add.commute append_eq_conv_conj drop_drop)
    ultimately show "starts_at s u i \<and> starts_at s v (i + length u)" by (simp add: pre)
  next
    assume "starts_at s u i \<and> starts_at s v (i + length u)"
    then obtain w w' where "drop i s = u @ w" and v: "drop (i + length u) s = v @ w'" by (auto simp: pre prefix_def)
    moreover from this have "drop (i + length u) s = w"
      by (metis add.commute append_eq_conv_conj drop_drop)
    ultimately show "starts_at s (u @ v) i" by (simp add: pre)
  qed
qed

lemma starts_at_cut: "starts_at s p i \<longleftrightarrow> cut s i (i + length p) = p"
  by (simp add: starts_at_def cut_def)

text \<open>The first position at or after \<open>i\<close> where \<open>p\<close> occurs: \<open>s.find(p, i)\<close> and \<open>s.index(p, i)\<close>.\<close>

function find_from :: "string \<Rightarrow> string \<Rightarrow> nat \<Rightarrow> nat option" where
  "find_from s p i =
     (if i > length s then None
      else if starts_at s p i then Some i
      else find_from s p (Suc i))"
  by pat_completeness auto
termination
  by (relation "measure (\<lambda>(s, p, i). Suc (length s) - i)") auto

declare find_from.simps [simp del]

lemma find_from_Some:
  "find_from s p i = Some j \<Longrightarrow>
     i \<le> j \<and> j \<le> length s \<and> starts_at s p j \<and> (\<forall>k. i \<le> k \<and> k < j \<longrightarrow> \<not> starts_at s p k)"
proof (induction s p i rule: find_from.induct)
  case (1 s p i)
  show ?case
  proof (cases "i \<le> length s \<and> \<not> starts_at s p i")
    case True
    with "1.prems" have "find_from s p (Suc i) = Some j"
      by (simp add: find_from.simps [of s p i])
    with "1.IH" True have
      IH: "Suc i \<le> j \<and> j \<le> length s \<and> starts_at s p j \<and> (\<forall>k. Suc i \<le> k \<and> k < j \<longrightarrow> \<not> starts_at s p k)"
      by simp
    with True show ?thesis by (metis Suc_leI Suc_leD le_neq_implies_less)
  next
    case False
    with "1.prems" show ?thesis
      by (auto simp: find_from.simps [of s p i] split: if_splits)
  qed
qed

lemma find_from_None:
  "find_from s p i = None \<Longrightarrow> i \<le> k \<Longrightarrow> k \<le> length s \<Longrightarrow> \<not> starts_at s p k"
proof (induction s p i rule: find_from.induct)
  case (1 s p i)
  then have no: "\<not> starts_at s p i" and le: "i \<le> length s"
    by (auto simp: find_from.simps [of s p i] split: if_splits)
  with "1.prems"(1) have rest: "find_from s p (Suc i) = None"
    by (simp add: find_from.simps [of s p i])
  show ?case
  proof (cases "k = i")
    case True
    with no show ?thesis by simp
  next
    case False
    with "1.prems" no le rest show ?thesis by (intro "1.IH") auto
  qed
qed

lemma find_from_first:
  assumes "starts_at s w n" and "\<And>k. k < n \<Longrightarrow> \<not> starts_at s w k" and "n \<le> length s"
  shows "find_from s w 0 = Some n"
proof -
  have "find_from s w 0 \<noteq> None" using find_from_None [of s w 0 n] assms by auto
  then obtain k where k: "find_from s w 0 = Some k" by blast
  note f = find_from_Some [OF k]
  have "\<not> k < n" using f assms(2) by blast
  moreover have "\<not> n < k" using f assms(1) by auto
  ultimately show ?thesis using k by simp
qed

lemma find_from_skip:
  assumes "p \<le> p'" and "p' \<le> Suc (length s)"
    and "\<And>k. p \<le> k \<Longrightarrow> k < p' \<Longrightarrow> \<not> starts_at s w k"
  shows "find_from s w p = find_from s w p'"
  using assms
proof (induction p rule: inc_induct)
  case (step k)
  then have "find_from s w k = find_from s w (Suc k)"
    by (simp add: find_from.simps [of s w k])
  with step show ?case by simp
qed simp

text \<open>\<open>s.count(p)\<close> for a non-empty \<open>p\<close>: occurrences that do not overlap, from the left.\<close>

function count_from :: "string \<Rightarrow> string \<Rightarrow> nat \<Rightarrow> nat" where
  "count_from s p i =
     (if i \<ge> length s then 0
      else if starts_at s p i \<and> p \<noteq> [] then Suc (count_from s p (i + length p))
      else count_from s p (Suc i))"
  by pat_completeness auto
termination
  by (relation "measure (\<lambda>(s, p, i). length s - i)") (auto intro!: diff_less_mono2)

declare count_from.simps [simp del]

abbreviation count_sub :: "string \<Rightarrow> string \<Rightarrow> nat" where
  "count_sub s p \<equiv> count_from s p 0"

text \<open>\<open>s.replace(old, new, 1)\<close>: only the first occurrence is replaced.\<close>

definition replace_first :: "string \<Rightarrow> string \<Rightarrow> string \<Rightarrow> string" where
  "replace_first s old new =
     (case find_from s old 0 of
        None \<Rightarrow> s
      | Some j \<Rightarrow> take j s @ new @ drop (j + length old) s)"

text \<open>\<open>s.replace(old, new)\<close> for a one-character \<open>old\<close>.\<close>

definition replace_char :: "char \<Rightarrow> string \<Rightarrow> string \<Rightarrow> string" where
  "replace_char c new s = concat (map (\<lambda>d. if d = c then new else [d]) s)"

text \<open>\<open>sep.join(parts)\<close>.\<close>

fun join :: "string \<Rightarrow> string list \<Rightarrow> string" where
  "join sep [] = []"
| "join sep [x] = x"
| "join sep (x # y # zs) = x @ sep @ join sep (y # zs)"

lemma join_Nil_sep: "join [] xs = concat xs"
  by (induction xs rule: induct_list012) auto

text \<open>\<open>s.split(c)\<close> for a one-character separator.\<close>

fun split_char :: "char \<Rightarrow> string \<Rightarrow> string list" where
  "split_char c [] = [[]]"
| "split_char c (x # xs) =
     (if x = c then [] # split_char c xs
      else (case split_char c xs of [] \<Rightarrow> [[x]] | w # ws \<Rightarrow> (x # w) # ws))"

lemma split_char_ne [simp]: "split_char c s \<noteq> []"
  by (induction s) (auto split: list.splits)

lemma split_char_no_sep: "c \<notin> set s \<Longrightarrow> split_char c s = [s]"
  by (induction s) auto

lemma split_char_append_sep: "c \<notin> set a \<Longrightarrow> split_char c (a @ c # s) = a # split_char c s"
  by (induction a) auto

lemma split_char_join:
  "ws \<noteq> [] \<Longrightarrow> (\<And>w. w \<in> set ws \<Longrightarrow> c \<notin> set w) \<Longrightarrow> split_char c (join [c] ws) = ws"
  by (induction ws rule: induct_list012) (auto simp: split_char_no_sep split_char_append_sep)

lemma join_split_char: "join [c] (split_char c s) = s"
proof (induction s)
  case (Cons x xs)
  obtain w ws where w: "split_char c xs = w # ws"
    by (cases "split_char c xs") auto
  show ?case
  proof (cases "x = c")
    case True
    with w Cons show ?thesis by simp
  next
    case False
    with w Cons show ?thesis by (cases ws) auto
  qed
qed simp

text \<open>\<open>s.split()\<close>: the maximal runs of characters that are not white space.\<close>

function split_ws :: "string \<Rightarrow> string list" where
  "split_ws s =
     (let t = dropWhile is_space s in
      if t = [] then []
      else takeWhile (\<lambda>c. \<not> is_space c) t # split_ws (dropWhile (\<lambda>c. \<not> is_space c) t))"
  by pat_completeness auto
termination
proof (relation "measure length")
  fix s x
  assume x: "x = dropWhile is_space s" and ne: "x \<noteq> []"
  obtain c cs where c: "x = c # cs" using ne by (cases x) auto
  then have "\<not> is_space c" using x by (metis hd_dropWhile list.sel(1) ne)
  then have "length (dropWhile (\<lambda>c. \<not> is_space c) x) < length x"
    using c by (simp add: length_dropWhile_le le_imp_less_Suc)
  also have "length x \<le> length s" using x by (simp add: length_dropWhile_le)
  finally show "(dropWhile (\<lambda>c. \<not> is_space c) x, s) \<in> measure length" by simp
qed auto

declare split_ws.simps [simp del]

lemma split_ws_Nil [simp]: "split_ws [] = []"
  by (simp add: split_ws.simps)

lemma split_ws_space: "is_space c \<Longrightarrow> split_ws (c # s) = split_ws s"
  by (simp add: split_ws.simps [of "c # s"] split_ws.simps [of s])

lemma split_ws_word:
  assumes "w \<noteq> []" and "\<forall>c \<in> set w. \<not> is_space c" and "s = [] \<or> is_space (hd s)"
  shows "split_ws (w @ s) = w # split_ws s"
proof -
  have drop: "dropWhile is_space (w @ s) = w @ s"
    using assms(1,2) by (cases w) auto
  have tk: "takeWhile (\<lambda>c. \<not> is_space c) (w @ s) = w"
    using assms(2,3) by (cases s) (auto simp: takeWhile_append)
  have dr: "dropWhile (\<lambda>c. \<not> is_space c) (w @ s) = s"
    using assms(2,3) by (cases s) (auto simp: dropWhile_append)
  show ?thesis
    using assms(1) by (subst split_ws.simps) (simp add: drop tk dr Let_def)
qed

lemma split_ws_sep:
  "is_space c \<Longrightarrow> \<forall>w \<in> set ws. w \<noteq> [] \<and> (\<forall>d \<in> set w. \<not> is_space d) \<Longrightarrow> split_ws (join [c] ws) = ws"
proof (induction ws rule: induct_list012)
  case (2 w)
  then show ?case using split_ws_word [of w "[]"] by simp
next
  case (3 v w ws)
  then have "split_ws (v @ c # join [c] (w # ws)) = v # split_ws (c # join [c] (w # ws))"
    by (intro split_ws_word) auto
  with 3 show ?case by (simp add: split_ws_space)
qed simp

text \<open>\<open>s.strip()\<close>.\<close>

definition strip :: "string \<Rightarrow> string" where
  "strip s = rev (dropWhile is_space (rev (dropWhile is_space s)))"

text \<open>\<open>s.splitlines()\<close>: a carriage return and the newline after it are one break.\<close>

fun lines_acc :: "string \<Rightarrow> string \<Rightarrow> string list" where
  "lines_acc acc [] = (if acc = [] then [] else [rev acc])"
| "lines_acc acc (c # cs) =
     (if c = CHR 0x0D \<and> cs \<noteq> [] \<and> hd cs = newline then lines_acc acc cs
      else if is_line_break c then rev acc # lines_acc [] cs
      else lines_acc (c # acc) cs)"

abbreviation splitlines :: "string \<Rightarrow> string list" where
  "splitlines s \<equiv> lines_acc [] s"

lemma lines_acc_line:
  assumes "\<forall>c \<in> set l. \<not> is_line_break c"
  shows "lines_acc acc (l @ newline # s) = (rev acc @ l) # lines_acc [] s"
  using assms
proof (induction l arbitrary: acc)
  case Nil
  show ?case by (simp add: is_line_break_def)
next
  case (Cons c cs)
  then have "c \<noteq> CHR 0x0D" by (auto simp: is_line_break_def)
  with Cons show ?case by simp
qed

lemma splitlines_concat:
  assumes "\<And>l c. l \<in> set ls \<Longrightarrow> c \<in> set l \<Longrightarrow> \<not> is_line_break c"
  shows "splitlines (concat (map (\<lambda>l. l @ [newline]) ls)) = ls"
  using assms
proof (induction ls)
  case (Cons l ls)
  then have "\<forall>c \<in> set l. \<not> is_line_break c" by auto
  then have "splitlines (l @ newline # s) = l # splitlines s" for s
    using lines_acc_line [of l "[]" s] by simp
  moreover have "splitlines (concat (map (\<lambda>l. l @ [newline]) ls)) = ls"
    using Cons.prems by (intro Cons.IH) auto
  ultimately show ?case by simp
qed simp

text \<open>Reading a file in text mode turns every line ending into a newline.\<close>

fun universal_newlines :: "string \<Rightarrow> string" where
  "universal_newlines [] = []"
| "universal_newlines (c # cs) =
     (if c = CHR 0x0D
      then (if cs \<noteq> [] \<and> hd cs = newline then universal_newlines cs
            else newline # universal_newlines cs)
      else c # universal_newlines cs)"

lemma universal_newlines_id: "CHR 0x0D \<notin> set s \<Longrightarrow> universal_newlines s = s"
  by (induction s) auto

end
