(* ===== verification/Py_Regex.thy ===== *)
theory Py_Regex
  imports Py_Prelude
begin

text \<open>
  Python's \<open>re\<close> module, as far as the scripts use it: a backtracking matcher over a syntax tree.
  \<open>matches r s i c\<close> lists every way in which \<open>r\<close> can match the text \<open>s\<close> from position \<open>i\<close>, in the
  order in which the backtracking engine tries them, each with the end position and the captured
  groups; the engine's answer is the first. Greedy and lazy repetition differ in that order only.

  A repetition only continues after an iteration that consumed something, so a text of length \<open>n\<close>
  bounds the number of iterations by \<open>n - i\<close>, which is the fuel \<open>iter\<close> is given. The patterns of
  the scripts repeat no expression that can match the empty text (\<open>star_ok\<close>), so this is the engine's own
  behaviour on them; the scripts' scanned patterns never match the empty text either (\<open>0 < min_len\<close>), so the
  rules for adjacent empty matches play no part. Both are proved for the list of all patterns in the root
  theory (\<open>script_patterns_star_ok\<close>, \<open>scanned_patterns_consume\<close>).
\<close>

section \<open>Syntax\<close>

datatype re =
    Eps
  | Cls "char \<Rightarrow> bool"
  | Seq re re
  | Alt re re
  | Star re
  | Lazy re
  | Grp nat re
  | WordBoundary
  | TextStart
  | LineStart
  | TextEnd
  | NotAhead re

text \<open>Captured groups: group number, start, end; the most recent capture of a group is first.\<close>

type_synonym caps = "(nat \<times> nat \<times> nat) list"

abbreviation chr :: "char \<Rightarrow> re" where "chr c \<equiv> Cls (\<lambda>d. d = c)"
abbreviation any_of :: "string \<Rightarrow> re" where "any_of cs \<equiv> Cls (\<lambda>d. d \<in> set cs)"
abbreviation none_of :: "string \<Rightarrow> re" where "none_of cs \<equiv> Cls (\<lambda>d. d \<notin> set cs)"
abbreviation dot :: re where "dot \<equiv> Cls (\<lambda>d. d \<noteq> newline)"
abbreviation dotall :: re where "dotall \<equiv> Cls (\<lambda>d. True)"
abbreviation Opt :: "re \<Rightarrow> re" where "Opt r \<equiv> Alt r Eps"
abbreviation Plus :: "re \<Rightarrow> re" where "Plus r \<equiv> Seq r (Star r)"
abbreviation LazyPlus :: "re \<Rightarrow> re" where "LazyPlus r \<equiv> Seq r (Lazy r)"

fun lit :: "string \<Rightarrow> re" where
  "lit [] = Eps"
| "lit (c # cs) = Seq (chr c) (lit cs)"

fun seqs :: "re list \<Rightarrow> re" where
  "seqs [] = Eps"
| "seqs [r] = r"
| "seqs (r # q # rs) = Seq r (seqs (q # rs))"

fun alts :: "re list \<Rightarrow> re" where
  "alts [] = Cls (\<lambda>_. False)"
| "alts [r] = r"
| "alts (r # q # rs) = Alt r (alts (q # rs))"

section \<open>The matcher\<close>

definition word_at :: "string \<Rightarrow> nat \<Rightarrow> bool" where
  "word_at s i \<longleftrightarrow> i < length s \<and> is_word (s ! i)"

definition boundary :: "string \<Rightarrow> nat \<Rightarrow> bool" where
  "boundary s i \<longleftrightarrow> (0 < i \<and> word_at s (i - 1)) \<noteq> word_at s i"

primrec iter :: "bool \<Rightarrow> nat \<Rightarrow> (nat \<Rightarrow> caps \<Rightarrow> (nat \<times> caps) list) \<Rightarrow> nat \<Rightarrow> caps \<Rightarrow> (nat \<times> caps) list" where
  "iter greedy 0 f i c = [(i, c)]"
| "iter greedy (Suc n) f i c =
     (let more = concat (map (\<lambda>(j, d). if i < j then iter greedy n f j d else []) (f i c))
      in if greedy then more @ [(i, c)] else (i, c) # more)"

primrec matches :: "re \<Rightarrow> string \<Rightarrow> nat \<Rightarrow> caps \<Rightarrow> (nat \<times> caps) list" where
  "matches Eps s i c = [(i, c)]"
| "matches (Cls p) s i c = (if i < length s \<and> p (s ! i) then [(Suc i, c)] else [])"
| "matches (Seq r q) s i c = concat (map (\<lambda>(j, d). matches q s j d) (matches r s i c))"
| "matches (Alt r q) s i c = matches r s i c @ matches q s i c"
| "matches (Star r) s i c = iter True (length s - i) (matches r s) i c"
| "matches (Lazy r) s i c = iter False (length s - i) (matches r s) i c"
| "matches (Grp k r) s i c = map (\<lambda>(j, d). (j, (k, i, j) # d)) (matches r s i c)"
| "matches WordBoundary s i c = (if boundary s i then [(i, c)] else [])"
| "matches TextStart s i c = (if i = 0 then [(i, c)] else [])"
| "matches LineStart s i c = (if i = 0 \<or> i \<le> length s \<and> s ! (i - 1) = newline then [(i, c)] else [])"
| "matches TextEnd s i c =
     (if i = length s \<or> Suc i = length s \<and> s ! i = newline then [(i, c)] else [])"
| "matches (NotAhead r) s i c = (if matches r s i c = [] then [(i, c)] else [])"

section \<open>What a match consumes\<close>

lemma in_iter_Suc:
  "(j, d) \<in> set (iter g (Suc n) f i c) \<longleftrightarrow>
     (j, d) = (i, c) \<or> (\<exists>k e. (k, e) \<in> set (f i c) \<and> i < k \<and> (j, d) \<in> set (iter g n f k e))"
  by (fastforce simp: Let_def split: if_splits)

lemma iter_bounds:
  assumes "\<And>k e j d. k \<le> N \<Longrightarrow> (j, d) \<in> set (f k e) \<Longrightarrow> k \<le> j \<and> j \<le> N"
    and "(j, d) \<in> set (iter g n f i c)" and "i \<le> N"
  shows "i \<le> j \<and> j \<le> N"
  using assms(2,3)
proof (induction n arbitrary: i c)
  case 0
  then show ?case by simp
next
  case (Suc n)
  show ?case
  proof (cases "(j, d) = (i, c)")
    case True
    with Suc.prems show ?thesis by simp
  next
    case False
    with Suc.prems(1) obtain k e
      where k: "(k, e) \<in> set (f i c)" "i < k" "(j, d) \<in> set (iter g n f k e)"
      unfolding in_iter_Suc by blast
    from assms(1) [OF Suc.prems(2) k(1)] have "k \<le> N" ..
    with Suc.IH [OF k(3)] k(2) show ?thesis by simp
  qed
qed

lemma matches_bounds:
  "(j, d) \<in> set (matches r s i c) \<Longrightarrow> i \<le> length s \<Longrightarrow> i \<le> j \<and> j \<le> length s"
proof (induction r arbitrary: i c j d)
  case (Seq r q)
  then obtain k e where k: "(k, e) \<in> set (matches r s i c)" "(j, d) \<in> set (matches q s k e)"
    by auto
  from Seq.IH(1) [OF k(1) Seq.prems(2)] have ik: "i \<le> k" and kl: "k \<le> length s" by auto
  from Seq.IH(2) [OF k(2) kl] ik show ?case by simp
next
  case (Star r)
  show ?case
    by (rule iter_bounds [where f = "matches r s" and g = True and n = "length s - i" and c = c and d = d])
      (use Star in auto)
next
  case (Lazy r)
  show ?case
    by (rule iter_bounds [where f = "matches r s" and g = False and n = "length s - i" and c = c and d = d])
      (use Lazy in auto)
qed (auto split: if_splits)

text \<open>A lower bound on the length of every match.\<close>

primrec min_len :: "re \<Rightarrow> nat" where
  "min_len Eps = 0"
| "min_len (Cls p) = 1"
| "min_len (Seq r q) = min_len r + min_len q"
| "min_len (Alt r q) = min (min_len r) (min_len q)"
| "min_len (Star r) = 0"
| "min_len (Lazy r) = 0"
| "min_len (Grp k r) = min_len r"
| "min_len WordBoundary = 0"
| "min_len TextStart = 0"
| "min_len LineStart = 0"
| "min_len TextEnd = 0"
| "min_len (NotAhead r) = 0"

lemma matches_min_len:
  "(j, d) \<in> set (matches r s i c) \<Longrightarrow> i \<le> length s \<Longrightarrow> i + min_len r \<le> j"
proof (induction r arbitrary: i c j d)
  case (Seq r q)
  then obtain k e where k: "(k, e) \<in> set (matches r s i c)" "(j, d) \<in> set (matches q s k e)"
    by auto
  from matches_bounds [OF k(1) Seq.prems(2)] have "k \<le> length s" by simp
  with Seq.IH(1) [OF k(1) Seq.prems(2)] Seq.IH(2) [OF k(2)] show ?case by simp
next
  case (Star r)
  then show ?case using matches_bounds [of j d "Star r" s i c] by simp
next
  case (Lazy r)
  then show ?case using matches_bounds [of j d "Lazy r" s i c] by simp
next
  case (Alt r q)
  then show ?case by (auto simp: min_def) (meson le_trans add_le_mono order_refl nat_le_linear)+
qed (auto split: if_splits)

text \<open>No repetition over an expression that can match the empty text.\<close>

primrec star_ok :: "re \<Rightarrow> bool" where
  "star_ok Eps = True"
| "star_ok (Cls p) = True"
| "star_ok (Seq r q) = (star_ok r \<and> star_ok q)"
| "star_ok (Alt r q) = (star_ok r \<and> star_ok q)"
| "star_ok (Star r) = (0 < min_len r \<and> star_ok r)"
| "star_ok (Lazy r) = (0 < min_len r \<and> star_ok r)"
| "star_ok (Grp k r) = star_ok r"
| "star_ok WordBoundary = True"
| "star_ok TextStart = True"
| "star_ok LineStart = True"
| "star_ok TextEnd = True"
| "star_ok (NotAhead r) = star_ok r"

lemma min_len_lit [simp]: "min_len (lit w) = length w"
  by (induction w) auto

lemma star_ok_lit [simp]: "star_ok (lit w)"
  by (induction w) auto

section \<open>A declarative reading\<close>

text \<open>
  Which spans an expression matches, without order and captures: the matcher finds exactly these,
  so the fuel of \<open>iter\<close> is enough.
\<close>

inductive spans :: "string \<Rightarrow> re \<Rightarrow> nat \<Rightarrow> nat \<Rightarrow> bool" for s where
  "spans s Eps i i"
| "i < length s \<Longrightarrow> p (s ! i) \<Longrightarrow> spans s (Cls p) i (Suc i)"
| "spans s r i k \<Longrightarrow> spans s q k j \<Longrightarrow> spans s (Seq r q) i j"
| "spans s r i j \<Longrightarrow> spans s (Alt r q) i j"
| "spans s q i j \<Longrightarrow> spans s (Alt r q) i j"
| "spans s (Star r) i i"
| "spans s r i k \<Longrightarrow> i < k \<Longrightarrow> spans s (Star r) k j \<Longrightarrow> spans s (Star r) i j"
| "spans s (Lazy r) i i"
| "spans s r i k \<Longrightarrow> i < k \<Longrightarrow> spans s (Lazy r) k j \<Longrightarrow> spans s (Lazy r) i j"
| "spans s r i j \<Longrightarrow> spans s (Grp n r) i j"
| "boundary s i \<Longrightarrow> spans s WordBoundary i i"
| "i = 0 \<Longrightarrow> spans s TextStart i i"
| "i = 0 \<or> i \<le> length s \<and> s ! (i - 1) = newline \<Longrightarrow> spans s LineStart i i"
| "i = length s \<or> Suc i = length s \<and> s ! i = newline \<Longrightarrow> spans s TextEnd i i"
| "matches r s i [] = [] \<Longrightarrow> spans s (NotAhead r) i i"

inductive_cases spans_elims:
  "spans s Eps i j" "spans s (Cls p) i j" "spans s (Seq r q) i j" "spans s (Alt r q) i j"
  "spans s (Grp n r) i j" "spans s WordBoundary i j" "spans s TextStart i j"
  "spans s LineStart i j" "spans s TextEnd i j" "spans s (NotAhead r) i j"

text \<open>The captures made so far never decide whether an expression matches.\<close>

lemma iter_ends:
  assumes "\<And>k e e'. fst ` set (f k e) = fst ` set (f k e')"
    and "(j, d) \<in> set (iter g n f i c)"
  shows "\<exists>d'. (j, d') \<in> set (iter g n f i c')"
  using assms(2)
proof (induction n arbitrary: i c c')
  case 0
  then show ?case by simp
next
  case (Suc n)
  show ?case
  proof (cases "(j, d) = (i, c)")
    case True
    then show ?thesis unfolding in_iter_Suc by auto
  next
    case False
    with Suc.prems obtain k e
      where k: "(k, e) \<in> set (f i c)" "i < k" "(j, d) \<in> set (iter g n f k e)"
      unfolding in_iter_Suc by blast
    from k(1) have "k \<in> fst ` set (f i c')" using assms(1) [of i c c'] by force
    then obtain e' where e': "(k, e') \<in> set (f i c')" by auto
    from Suc.IH [OF k(3)] obtain d' where "(j, d') \<in> set (iter g n f k e')" by blast
    with e' k(2) show ?thesis unfolding in_iter_Suc by blast
  qed
qed

lemma iter_ends_eq:
  assumes "\<And>k e e'. fst ` set (f k e) = fst ` set (f k e')"
  shows "fst ` set (iter g n f i c) = fst ` set (iter g n f i c')"
proof -
  have "fst ` set (iter g n f i a) \<subseteq> fst ` set (iter g n f i b)" for a b
    using iter_ends [OF assms] by force
  then show ?thesis by blast
qed

lemma matches_ends: "fst ` set (matches r s i c) = fst ` set (matches r s i c')"
proof (induction r arbitrary: i c c')
  case (Seq r q)
  have "fst ` set (matches (Seq r q) s i e)
      = (\<Union>k \<in> fst ` set (matches r s i e). fst ` set (matches q s k []))" for e
    by (simp add: image_UN case_prod_beta image_image) (intro SUP_cong refl Seq.IH(2))
  with Seq.IH(1) [of i c c'] show ?case by metis
next
  case (Star r)
  then show ?case by (simp, intro iter_ends_eq)
next
  case (Lazy r)
  then show ?case by (simp, intro iter_ends_eq)
next
  case (NotAhead r)
  have "matches r s i c = [] \<longleftrightarrow> matches r s i c' = []"
    using NotAhead [of i c c'] by (metis image_is_empty set_empty)
  then show ?case by (cases "matches r s i c = []") simp_all
next
  case (Alt r q)
  show ?case using Alt.IH(1) [of i c c'] Alt.IH(2) [of i c c'] by (simp add: image_Un)
next
  case (Grp n r)
  show ?case using Grp.IH [of i c c'] by (simp add: image_image case_prod_beta)
qed auto

lemma matches_captures_Nil: "matches r s i c = [] \<longleftrightarrow> matches r s i [] = []"
  using matches_ends [of r s i c "[]"] by (metis image_is_empty set_empty)

lemma spans_bounds: "spans s r i j \<Longrightarrow> i \<le> length s \<Longrightarrow> i \<le> j \<and> j \<le> length s"
  by (induction rule: spans.induct) auto

lemma iter_spans:
  assumes step: "\<And>k j e d. k \<le> length s \<Longrightarrow> (j, d) \<in> set (f k e) \<Longrightarrow> spans s r k j"
    and q: "q = (if g then Star r else Lazy r)"
  shows "(j, d) \<in> set (iter g n f i c) \<Longrightarrow> i \<le> length s \<Longrightarrow> spans s q i j"
proof (induction n arbitrary: i c)
  case 0
  then show ?case by (auto simp: q intro: spans.intros)
next
  case (Suc n)
  show ?case
  proof (cases "(j, d) = (i, c)")
    case True
    then show ?thesis by (auto simp: q intro: spans.intros)
  next
    case False
    with Suc.prems obtain k e
      where k: "(k, e) \<in> set (f i c)" "i < k" "(j, d) \<in> set (iter g n f k e)"
      unfolding in_iter_Suc by blast
    from step [OF Suc.prems(2) k(1)] have ik: "spans s r i k" .
    with spans_bounds Suc.prems(2) have "k \<le> length s" by blast
    with Suc.IH [OF k(3)] have "spans s q k j" .
    with ik k(2) show ?thesis by (auto simp: q intro: spans.intros)
  qed
qed

text \<open>Enough fuel: a repetition with \<open>length s - i\<close> units from position \<open>i\<close> reaches every end.\<close>

lemma spans_iter:
  assumes step: "\<And>k j e. k \<le> length s \<Longrightarrow> spans s r k j \<Longrightarrow> \<exists>d. (j, d) \<in> set (f k e)"
  shows "spans s q i j \<Longrightarrow> q = Star r \<or> q = Lazy r \<Longrightarrow> i \<le> length s \<Longrightarrow> length s - i \<le> n \<Longrightarrow>
           \<exists>d. (j, d) \<in> set (iter g n f i c)"
proof (induction arbitrary: n c rule: spans.induct)
  case (6 r' i)
  then show ?case by (cases n) (auto simp: Let_def)
next
  case (8 r' i)
  then show ?case by (cases n) (auto simp: Let_def)
next
  case (7 r' i k j)
  then have ik: "spans s r i k" "i < k" by simp_all
  with 7 spans_bounds have k: "k \<le> length s" by blast
  with 7 ik obtain m where n: "n = Suc m" "length s - k \<le> m" by (cases n) auto
  from "7.prems"(2) ik(1) have "\<exists>e. (k, e) \<in> set (f i c)" by (rule step)
  then obtain e where e: "(k, e) \<in> set (f i c)" by blast
  from "7.IH"(2) [OF "7.prems"(1) k n(2)] obtain d where "(j, d) \<in> set (iter g m f k e)" by blast
  with e ik show ?case unfolding n(1) in_iter_Suc by blast
next
  case (9 r' i k j)
  then have ik: "spans s r i k" "i < k" by simp_all
  with 9 spans_bounds have k: "k \<le> length s" by blast
  with 9 ik obtain m where n: "n = Suc m" "length s - k \<le> m" by (cases n) auto
  from "9.prems"(2) ik(1) have "\<exists>e. (k, e) \<in> set (f i c)" by (rule step)
  then obtain e where e: "(k, e) \<in> set (f i c)" by blast
  from "9.IH"(2) [OF "9.prems"(1) k n(2)] obtain d where "(j, d) \<in> set (iter g m f k e)" by blast
  with e ik show ?case unfolding n(1) in_iter_Suc by blast
qed auto

lemma iter_iff_spans:
  assumes IH: "\<And>k j e. k \<le> length s \<Longrightarrow> (\<exists>d. (j, d) \<in> set (f k e)) \<longleftrightarrow> spans s r k j"
    and q: "q = (if g then Star r else Lazy r)" and i: "i \<le> length s"
  shows "(\<exists>d. (j, d) \<in> set (iter g (length s - i) f i c)) \<longleftrightarrow> spans s q i j"
proof
  assume "\<exists>d. (j, d) \<in> set (iter g (length s - i) f i c)"
  then obtain d where d: "(j, d) \<in> set (iter g (length s - i) f i c)" ..
  have step: "spans s r k j" if "k \<le> length s" "(j, d) \<in> set (f k e)" for k j d e
    using IH [OF that(1)] that(2) by blast
  show "spans s q i j" using iter_spans [OF step q d i] .
next
  assume sp: "spans s q i j"
  have step: "\<exists>d. (j, d) \<in> set (f k e)" if "k \<le> length s" "spans s r k j" for k j e
    using IH [OF that(1)] that(2) by blast
  show "\<exists>d. (j, d) \<in> set (iter g (length s - i) f i c)"
    by (rule spans_iter [where r = r, OF step sp]) (use i q in auto)
qed

theorem matches_iff_spans:
  assumes "i \<le> length s"
  shows "(\<exists>d. (j, d) \<in> set (matches r s i c)) \<longleftrightarrow> spans s r i j"
  using assms
proof (induction r arbitrary: i j c)
  case (Seq r q)
  show ?case
  proof
    assume "\<exists>d. (j, d) \<in> set (matches (Seq r q) s i c)"
    then obtain k e d where k: "(k, e) \<in> set (matches r s i c)" "(j, d) \<in> set (matches q s k e)" by auto
    with Seq.IH(1) [OF Seq.prems] have "spans s r i k" by blast
    moreover from this have "spans s q k j"
      using Seq.IH(2) spans_bounds Seq.prems k(2) by blast
    ultimately show "spans s (Seq r q) i j" by (rule spans.intros)
  next
    assume "spans s (Seq r q) i j"
    then obtain k where k: "spans s r i k" "spans s q k j" by (auto elim: spans_elims)
    with Seq.IH(1) [OF Seq.prems] obtain e where e: "(k, e) \<in> set (matches r s i c)" by blast
    from k spans_bounds Seq.prems Seq.IH(2) obtain d where "(j, d) \<in> set (matches q s k e)" by blast
    with e show "\<exists>d. (j, d) \<in> set (matches (Seq r q) s i c)" by force
  qed
next
  case (Alt r q)
  have "(\<exists>d. (j, d) \<in> set (matches (Alt r q) s i c)) \<longleftrightarrow>
          (\<exists>d. (j, d) \<in> set (matches r s i c)) \<or> (\<exists>d. (j, d) \<in> set (matches q s i c))"
    by auto
  also have "\<dots> \<longleftrightarrow> spans s r i j \<or> spans s q i j"
    by (simp only: Alt.IH [OF Alt.prems])
  also have "\<dots> \<longleftrightarrow> spans s (Alt r q) i j"
    by (auto elim!: spans_elims intro: spans.intros)
  finally show ?case .
next
  case (Star r)
  then show ?case using iter_iff_spans [where f = "matches r s" and r = r and g = True] by simp
next
  case (Lazy r)
  then show ?case using iter_iff_spans [where f = "matches r s" and r = r and g = False] by simp
next
  case (Grp n r)
  have "(\<exists>d. (j, d) \<in> set (matches (Grp n r) s i c)) \<longleftrightarrow> (\<exists>d. (j, d) \<in> set (matches r s i c))"
    by force
  with Grp.IH [OF Grp.prems] show ?case by (auto elim!: spans_elims intro: spans.intros)
next
  case (NotAhead r)
  then show ?case using matches_captures_Nil [of r s i c] by (auto elim!: spans_elims intro: spans.intros)
qed (auto elim!: spans_elims intro: spans.intros split: if_splits)

end
