(* ===== verification/Py_Scan.thy ===== *)
theory Py_Scan
  imports Py_Regex
begin

text \<open>
  Searching and rewriting with the matcher: \<open>match\<close>, \<open>search\<close>, \<open>finditer\<close>, \<open>sub\<close>, and the contract
  every scanner of the scripts offers its clients. A scanner lists spans of a text from left to
  right without overlap; a client walks over them with a cursor and replaces each span. The locale
  \<open>scanner\<close> states that contract and proves what such a client keeps of the text.
\<close>

section \<open>Match objects\<close>

record pymatch =
  m_start :: nat
  m_end :: nat
  m_caps :: caps

definition whole :: "string \<Rightarrow> pymatch \<Rightarrow> string" where
  "whole s m = cut s (m_start m) (m_end m)"

definition group :: "string \<Rightarrow> pymatch \<Rightarrow> nat \<Rightarrow> string option" where
  "group s m k = map_option (\<lambda>(a, b). cut s a b) (map_of (m_caps m) k)"

text \<open>A group of a pattern in which that group always takes part.\<close>

definition grp :: "string \<Rightarrow> pymatch \<Rightarrow> nat \<Rightarrow> string" where
  "grp s m k = (case group s m k of None \<Rightarrow> [] | Some w \<Rightarrow> w)"

definition match_at :: "re \<Rightarrow> string \<Rightarrow> nat \<Rightarrow> pymatch option" where
  "match_at r s i =
     (case matches r s i [] of
        [] \<Rightarrow> None
      | (j, c) # _ \<Rightarrow> Some \<lparr>m_start = i, m_end = j, m_caps = c\<rparr>)"

text \<open>\<open>pattern.match(s)\<close>.\<close>

abbreviation re_match :: "re \<Rightarrow> string \<Rightarrow> pymatch option" where
  "re_match r s \<equiv> match_at r s 0"

function search :: "re \<Rightarrow> string \<Rightarrow> nat \<Rightarrow> pymatch option" where
  "search r s i =
     (if i > length s then None
      else case match_at r s i of Some m \<Rightarrow> Some m | None \<Rightarrow> search r s (Suc i))"
  by pat_completeness auto
termination
  by (relation "measure (\<lambda>(r, s, i). Suc (length s) - i)") auto

declare search.simps [simp del]

abbreviation re_search :: "re \<Rightarrow> string \<Rightarrow> pymatch option" where
  "re_search r s \<equiv> search r s 0"

lemma match_at_Some:
  "match_at r s i = Some m \<Longrightarrow> i \<le> length s \<Longrightarrow>
     m_start m = i \<and> i + min_len r \<le> m_end m \<and> m_end m \<le> length s \<and> spans s r i (m_end m)"
proof -
  assume m: "match_at r s i = Some m" and i: "i \<le> length s"
  then obtain j c rest where r: "matches r s i [] = (j, c) # rest"
    and mm: "m = \<lparr>m_start = i, m_end = j, m_caps = c\<rparr>"
    by (auto simp: match_at_def split: list.splits)
  from r have j: "(j, c) \<in> set (matches r s i [])" by simp
  then have "spans s r i j" using matches_iff_spans [OF i] by blast
  with matches_bounds [OF j i] matches_min_len [OF j i] mm show ?thesis by simp
qed

lemma match_at_None_iff: "i \<le> length s \<Longrightarrow> match_at r s i = None \<longleftrightarrow> (\<forall>j. \<not> spans s r i j)"
proof -
  assume i: "i \<le> length s"
  have "match_at r s i = None \<longleftrightarrow> matches r s i [] = []"
    by (auto simp: match_at_def split: list.splits)
  also have "\<dots> \<longleftrightarrow> (\<forall>j d. (j, d) \<notin> set (matches r s i []))"
    by (metis list.set_intros(1) list.set_cases neq_Nil_conv surj_pair empty_iff list.set(1))
  also have "\<dots> \<longleftrightarrow> (\<forall>j. \<not> spans s r i j)"
    using matches_iff_spans [OF i] by blast
  finally show ?thesis .
qed

lemma search_Some:
  "search r s i = Some m \<Longrightarrow>
     i \<le> m_start m \<and> m_start m + min_len r \<le> m_end m \<and> m_end m \<le> length s
     \<and> match_at r s (m_start m) = Some m
     \<and> (\<forall>k. i \<le> k \<and> k < m_start m \<longrightarrow> match_at r s k = None)"
proof (induction r s i rule: search.induct)
  case (1 r s i)
  then have i: "i \<le> length s"
    by (auto simp: search.simps [of r s i] split: if_splits)
  show ?case
  proof (cases "match_at r s i")
    case None
    with "1.prems" i have "search r s (Suc i) = Some m"
      by (simp add: search.simps [of r s i])
    with "1.IH" None i have IH: "Suc i \<le> m_start m \<and> m_start m + min_len r \<le> m_end m
      \<and> m_end m \<le> length s \<and> match_at r s (m_start m) = Some m
      \<and> (\<forall>k. Suc i \<le> k \<and> k < m_start m \<longrightarrow> match_at r s k = None)" by simp
    with None show ?thesis by (metis Suc_leI Suc_leD le_neq_implies_less)
  next
    case (Some m')
    with "1.prems" i have "m' = m" by (simp add: search.simps [of r s i])
    with Some match_at_Some [OF Some i] show ?thesis by auto
  qed
qed

lemma search_None:
  "search r s i = None \<Longrightarrow> i \<le> k \<Longrightarrow> k \<le> length s \<Longrightarrow> match_at r s k = None"
proof (induction r s i rule: search.induct)
  case (1 r s i)
  then have i: "i \<le> length s" by simp
  with "1.prems"(1) have none: "match_at r s i = None" and rest: "search r s (Suc i) = None"
    by (auto simp: search.simps [of r s i] split: option.splits)
  show ?case
  proof (cases "k = i")
    case False
    with "1.prems" i none rest show ?thesis by (intro "1.IH") auto
  qed (use none in simp)
qed

text \<open>\<open>pattern.finditer(s)\<close> from a position, for a pattern that matches no empty text.\<close>

function finditer :: "re \<Rightarrow> string \<Rightarrow> nat \<Rightarrow> pymatch list" where
  "finditer r s i =
     (case search r s i of
        None \<Rightarrow> []
      | Some m \<Rightarrow> m # finditer r s (if m_start m < m_end m then m_end m else Suc (m_end m)))"
  by pat_completeness auto
termination
proof (relation "measure (\<lambda>(r, s, i). Suc (length s) - i)")
  fix r s i m
  assume "search r s i = Some m"
  with search_Some [of r s i m] show
    "((r, s, if m_start m < m_end m then m_end m else Suc (m_end m)), r, s, i)
       \<in> measure (\<lambda>(r, s, i). Suc (length s) - i)"
    by (auto split: if_splits)
qed auto

declare finditer.simps [simp del]

abbreviation find_matches :: "re \<Rightarrow> string \<Rightarrow> pymatch list" where
  "find_matches r s \<equiv> finditer r s 0"


section \<open>Ordered spans and weaving\<close>

fun ordered :: "nat \<Rightarrow> nat \<Rightarrow> (nat \<times> nat) list \<Rightarrow> bool" where
  "ordered cur n [] = (cur \<le> n)"
| "ordered cur n ((a, b) # xs) = (cur \<le> a \<and> a \<le> b \<and> ordered b n xs)"

lemma ordered_le: "ordered cur n xs \<Longrightarrow> cur \<le> n"
  by (induction cur n xs rule: ordered.induct) auto

lemma ordered_mono: "ordered b n xs \<Longrightarrow> a \<le> b \<Longrightarrow> ordered a n xs"
  by (cases xs) auto

lemma ordered_in:
  "ordered cur n xs \<Longrightarrow> (a, b) \<in> set xs \<Longrightarrow> cur \<le> a \<and> a \<le> b \<and> b \<le> n"
proof (induction cur n xs rule: ordered.induct)
  case (2 cur n c d xs)
  show ?case
  proof (cases "(a, b) = (c, d)")
    case True
    with "2.prems" ordered_le [of d n xs] show ?thesis by simp
  next
    case False
    with "2.prems" have "d \<le> a \<and> a \<le> b \<and> b \<le> n" by (intro "2.IH") auto
    with "2.prems"(1) show ?thesis by simp
  qed
qed simp

text \<open>The text with the span \<open>[a, b)\<close> of each entry replaced, from a cursor on.\<close>

fun weave :: "string \<Rightarrow> nat \<Rightarrow> (nat \<times> nat \<times> string) list \<Rightarrow> string" where
  "weave s cur [] = drop cur s"
| "weave s cur ((a, b, w) # xs) = cut s cur a @ w @ weave s b xs"

lemma weave_identity:
  "ordered cur (length s) (map (\<lambda>(a, b, w). (a, b)) xs) \<Longrightarrow>
   (\<And>a b w. (a, b, w) \<in> set xs \<Longrightarrow> w = cut s a b) \<Longrightarrow> weave s cur xs = drop cur s"
proof (induction s cur xs rule: weave.induct)
  case (2 s cur a b w xs)
  have IH: "weave s b xs = drop b s"
    by (rule "2.IH") (use "2.prems" in auto)
  have w: "w = cut s a b" using "2.prems"(2) by simp
  show ?case using "2.prems"(1) by (simp add: IH w cut_drop_split)
qed simp

text \<open>A homomorphism that does not see the replacements does not see the weave.\<close>

lemma weave_filter:
  "ordered cur (length s) (map (\<lambda>(a, b, w). (a, b)) xs) \<Longrightarrow>
   (\<And>a b w. (a, b, w) \<in> set xs \<Longrightarrow> filter P w = filter P (cut s a b)) \<Longrightarrow>
   filter P (weave s cur xs) = filter P (drop cur s)"
proof (induction s cur xs rule: weave.induct)
  case (2 s cur a b w xs)
  have IH: "filter P (weave s b xs) = filter P (drop b s)"
    by (rule "2.IH") (use "2.prems" in auto)
  have w: "filter P w = filter P (cut s a b)" using "2.prems"(2) by simp
  have "drop cur s = cut s cur a @ cut s a b @ drop b s"
    using "2.prems"(1) by (simp add: cut_drop_split)
  with IH w show ?case by simp
qed simp

lemma weave_subseq:
  "ordered cur (length s) (map (\<lambda>(a, b, w). (a, b)) xs) \<Longrightarrow>
   (\<And>a b w. (a, b, w) \<in> set xs \<Longrightarrow> subseq (cut s a b) w) \<Longrightarrow>
   subseq (drop cur s) (weave s cur xs)"
proof (induction s cur xs rule: weave.induct)
  case (2 s cur a b w xs)
  have IH: "subseq (drop b s) (weave s b xs)"
    by (rule "2.IH") (use "2.prems" in auto)
  have w: "subseq (cut s a b) w" using "2.prems"(2) by simp
  have "drop cur s = cut s cur a @ cut s a b @ drop b s"
    using "2.prems"(1) by (simp add: cut_drop_split)
  moreover have "subseq (cut s cur a @ cut s a b @ drop b s) (cut s cur a @ w @ weave s b xs)"
    using IH w by (intro list_emb_append_mono) auto
  ultimately show ?case by simp
qed simp


section \<open>The scanner contract\<close>

locale scanner =
  fixes scan :: "string \<Rightarrow> 'm list"
    and beg :: "'m \<Rightarrow> nat"
    and fin :: "'m \<Rightarrow> nat"
  assumes scan_ordered: "ordered 0 (length s) (map (\<lambda>m. (beg m, fin m)) (scan s))"
begin

definition replace_spans :: "('m \<Rightarrow> string) \<Rightarrow> string \<Rightarrow> string" where
  "replace_spans f s = weave s 0 (map (\<lambda>m. (beg m, fin m, f m)) (scan s))"

lemma scan_bounds: "m \<in> set (scan s) \<Longrightarrow> beg m \<le> fin m \<and> fin m \<le> length s"
  using ordered_in [OF scan_ordered, of "beg m" "fin m" s] by force

lemma replacement_ordered:
  "ordered 0 (length s) (map (\<lambda>(a, b, w). (a, b)) (map (\<lambda>m. (beg m, fin m, f m)) (scan s)))"
  using scan_ordered [of s] by (simp add: o_def)

lemma replace_spans_identity:
  assumes "\<And>m. m \<in> set (scan s) \<Longrightarrow> f m = cut s (beg m) (fin m)"
  shows "replace_spans f s = s"
  using weave_identity [OF replacement_ordered [of s f]] assms by (auto simp: replace_spans_def)

lemma replace_spans_filter:
  assumes "\<And>m. m \<in> set (scan s) \<Longrightarrow> filter P (f m) = filter P (cut s (beg m) (fin m))"
  shows "filter P (replace_spans f s) = filter P s"
  using weave_filter [OF replacement_ordered [of s f], of P] assms by (auto simp: replace_spans_def)

lemma replace_spans_subseq:
  assumes "\<And>m. m \<in> set (scan s) \<Longrightarrow> subseq (cut s (beg m) (fin m)) (f m)"
  shows "subseq s (replace_spans f s)"
  using weave_subseq [OF replacement_ordered [of s f]] assms by (auto simp: replace_spans_def)

lemma replace_spans_none: "scan s = [] \<Longrightarrow> replace_spans f s = s"
  by (simp add: replace_spans_def)

end

lemma finditer_ordered:
  "i \<le> length s \<Longrightarrow> ordered i (length s) (map (\<lambda>m. (m_start m, m_end m)) (finditer r s i))"
proof (induction r s i rule: finditer.induct)
  case (1 r s i)
  show ?case
  proof (cases "search r s i")
    case None
    with "1.prems" show ?thesis by (simp add: finditer.simps [of r s i])
  next
    case (Some m)
    note m = search_Some [OF Some]
    let ?next = "if m_start m < m_end m then m_end m else Suc (m_end m)"
    have "ordered (m_end m) (length s) (map (\<lambda>m. (m_start m, m_end m)) (finditer r s ?next))"
    proof (cases "?next \<le> length s")
      case True
      with "1.IH" [OF Some] have "ordered ?next (length s) (map (\<lambda>m. (m_start m, m_end m)) (finditer r s ?next))" .
      then show ?thesis by (rule ordered_mono) simp
    next
      case False
      then have "search r s ?next = None" by (simp add: search.simps [of r s ?next])
      with m show ?thesis by (simp add: finditer.simps [of r s ?next])
    qed
    with m Some show ?thesis by (simp add: finditer.simps [of r s i])
  qed
qed

lemma finditer_in:
  "m \<in> set (finditer r s i) \<Longrightarrow>
     m_start m + min_len r \<le> m_end m \<and> m_end m \<le> length s \<and> match_at r s (m_start m) = Some m"
proof (induction r s i rule: finditer.induct)
  case (1 r s i)
  from "1.prems" obtain m' where m': "search r s i = Some m'"
    by (cases "search r s i") (auto simp: finditer.simps [of r s i])
  with "1.prems" have "m = m' \<or> m \<in> set (finditer r s
      (if m_start m' < m_end m' then m_end m' else Suc (m_end m')))"
    by (simp add: finditer.simps [of r s i])
  then show ?case using "1.IH" [OF m'] search_Some [OF m'] by auto
qed

text \<open>Whatever the pattern matches lies inside, or starts inside, some match of the scan.\<close>

lemma finditer_covers:
  "i \<le> k \<Longrightarrow> k \<le> length s \<Longrightarrow> 0 < min_len r \<Longrightarrow> match_at r s k = Some n \<Longrightarrow>
     \<exists>m \<in> set (finditer r s i). m_start m \<le> k \<and> k < m_end m"
proof (induction r s i rule: finditer.induct)
  case (1 r s i)
  show ?case
  proof (cases "search r s i")
    case None
    with search_None [OF None "1.prems"(1,2)] "1.prems"(4) show ?thesis by simp
  next
    case (Some m)
    note m = search_Some [OF Some]
    have here: "m_start m \<le> k" using m "1.prems"(1,4) by (metis not_le option.distinct(1))
    have ne: "m_start m < m_end m" using m "1.prems"(3) by linarith
    show ?thesis
    proof (cases "k < m_end m")
      case True
      with here Some show ?thesis by (simp add: finditer.simps [of r s i])
    next
      case False
      with ne "1.prems" have "\<exists>m \<in> set (finditer r s (m_end m)). m_start m \<le> k \<and> k < m_end m"
        using "1.IH" [OF Some] by simp
      with ne Some show ?thesis by (auto simp: finditer.simps [of r s i])
    qed
  qed
qed

interpretation re_scan: scanner "find_matches r" m_start m_end for r
  by unfold_locales (rule finditer_ordered, simp)

text \<open>\<open>pattern.sub(f, s)\<close> and \<open>pattern.subn\<close>; \<open>f\<close> sees the text and the match.\<close>

definition re_sub :: "re \<Rightarrow> (string \<Rightarrow> pymatch \<Rightarrow> string) \<Rightarrow> string \<Rightarrow> string" where
  "re_sub r f s = weave s 0 (map (\<lambda>m. (m_start m, m_end m, f s m)) (find_matches r s))"

definition re_subn :: "re \<Rightarrow> (string \<Rightarrow> pymatch \<Rightarrow> string) \<Rightarrow> string \<Rightarrow> string \<times> nat" where
  "re_subn r f s = (re_sub r f s, length (find_matches r s))"

lemma re_sub_replace_spans: "re_sub r f s = re_scan.replace_spans r (f s) s"
  by (simp add: re_sub_def re_scan.replace_spans_def)

lemma re_sub_subseq:
  "(\<And>m. m \<in> set (find_matches r s) \<Longrightarrow> subseq (whole s m) (f s m)) \<Longrightarrow> subseq s (re_sub r f s)"
  unfolding re_sub_replace_spans by (rule re_scan.replace_spans_subseq) (simp add: whole_def)

section \<open>Captures\<close>

lemma in_matches_Seq:
  "(j, c) \<in> set (matches (Seq r q) s i d) \<longleftrightarrow> (\<exists>k e. (k, e) \<in> set (matches r s i d) \<and> (j, c) \<in> set (matches q s k e))"
  by auto

lemma in_matches_Grp:
  "(j, c) \<in> set (matches (Grp n r) s i d) \<longleftrightarrow> (\<exists>e. (j, e) \<in> set (matches r s i d) \<and> c = (n, i, j) # e)"
  by auto

text \<open>An expression without groups leaves the captures alone.\<close>

primrec no_groups :: "re \<Rightarrow> bool" where
  "no_groups Eps = True"
| "no_groups (Cls p) = True"
| "no_groups (Seq r q) = (no_groups r \<and> no_groups q)"
| "no_groups (Alt r q) = (no_groups r \<and> no_groups q)"
| "no_groups (Star r) = no_groups r"
| "no_groups (Lazy r) = no_groups r"
| "no_groups (Grp n r) = False"
| "no_groups WordBoundary = True"
| "no_groups TextStart = True"
| "no_groups LineStart = True"
| "no_groups TextEnd = True"
| "no_groups (NotAhead r) = True"

lemma iter_caps:
  assumes "\<And>i c j d. (j, d) \<in> set (f i c) \<Longrightarrow> d = c"
  shows "(j, d) \<in> set (iter greedy n f i c) \<Longrightarrow> d = c"
proof (induction n arbitrary: i c)
  case (Suc n)
  then consider "(j, d) = (i, c)" | k e where "(k, e) \<in> set (f i c)" "(j, d) \<in> set (iter greedy n f k e)"
    unfolding in_iter_Suc by blast
  then show ?case
  proof cases
    case 2
    with Suc.IH assms show ?thesis by metis
  qed simp
qed simp

lemma no_groups_caps: "no_groups r \<Longrightarrow> (j, d) \<in> set (matches r s i c) \<Longrightarrow> d = c"
proof (induction r arbitrary: i j c d)
  case (Seq r q)
  then show ?case by (metis in_matches_Seq no_groups.simps(3))
next
  case (Star r)
  then show ?case using iter_caps [of "matches r s"] by (metis matches.simps(5) no_groups.simps(5))
next
  case (Lazy r)
  then show ?case using iter_caps [of "matches r s"] by (metis matches.simps(6) no_groups.simps(6))
qed (auto split: if_splits)

section \<open>Literals\<close>

lemma matches_lit: "matches (lit w) s i c = (if starts_at s w i then [(i + length w, c)] else [])"
proof (induction w arbitrary: i)
  case Nil
  then show ?case by (simp add: starts_at_def)
next
  case (Cons x w)
  have "starts_at s (x # w) i \<longleftrightarrow> i < length s \<and> s ! i = x \<and> starts_at s w (Suc i)"
    by (cases "i < length s") (auto simp: starts_at_def Cons_nth_drop_Suc [symmetric])
  then show ?case by (simp add: Cons)
qed

declare lit.simps [simp del]

lemma spans_mono: "spans s r i j \<Longrightarrow> i \<le> j"
  by (induction rule: spans.induct) auto

lemma spans_start: "spans s r i j \<Longrightarrow> 0 < min_len r \<Longrightarrow> i < length s"
  by (induction rule: spans.induct) (auto dest: spans_mono)

lemma spans_lit:
  assumes "w \<noteq> []"
  shows "spans s (lit w) i j \<longleftrightarrow> starts_at s w i \<and> j = i + length w"
proof (cases "i \<le> length s")
  case True
  then show ?thesis
    using matches_iff_spans [OF True, of j "lit w" "[]"] by (auto simp: matches_lit split: if_splits)
next
  case False
  with assms spans_start [of s "lit w" i j] starts_at_length [of s w i] show ?thesis by auto
qed

lemma starts_at_nth: "starts_at s w i \<Longrightarrow> k < length w \<Longrightarrow> i + k < length s \<and> s ! (i + k) = w ! k"
proof -
  assume a: "starts_at s w i" and k: "k < length w"
  then have le: "i + length w \<le> length s" using starts_at_length by fastforce
  have "w ! k = take (length w) (drop i s) ! k" using a by (simp add: starts_at_def)
  also have "\<dots> = s ! (i + k)" using k le by simp
  finally show ?thesis using k le by simp
qed

lemma spans_Seq: "spans s (Seq r q) i j \<longleftrightarrow> (\<exists>k. spans s r i k \<and> spans s q k j)"
  by (auto elim: spans_elims intro: spans.intros)

lemma spans_Alt: "spans s (Alt r q) i j \<longleftrightarrow> spans s r i j \<or> spans s q i j"
  by (auto elim: spans_elims intro: spans.intros)

lemma spans_Cls: "spans s (Cls p) i j \<longleftrightarrow> i < length s \<and> p (s ! i) \<and> j = Suc i"
  by (auto elim: spans_elims intro: spans.intros)

lemma spans_Grp: "spans s (Grp n r) i j \<longleftrightarrow> spans s r i j"
  by (auto elim: spans_elims intro: spans.intros)

lemma spans_Star_Cls:
  assumes "spans s (Star (Cls p)) i j"
  shows "i \<le> j \<and> (\<forall>k. i \<le> k \<and> k < j \<longrightarrow> k < length s \<and> p (s ! k))"
proof -
  have "i \<le> j \<and> (\<forall>k. i \<le> k \<and> k < j \<longrightarrow> k < length s \<and> p (s ! k))" if "spans s q i j" "q = Star (Cls p)" for q
    using that
  proof (induction rule: spans.induct)
    case (7 r i k j)
    then have step: "i < length s" "p (s ! i)" "k = Suc i" by (simp_all add: spans_Cls)
    from 7 have IH: "k \<le> j" "\<forall>m. k \<le> m \<and> m < j \<longrightarrow> m < length s \<and> p (s ! m)" by auto
    show ?case using step IH by (metis Suc_leI Suc_leD le_neq_implies_less)
  qed auto
  with assms show ?thesis by blast
qed

text \<open>A run of a class that is followed by a character outside it has only one end.\<close>

lemma run_end_unique:
  assumes "spans s (Star (Cls p)) i j" and "spans s (Star (Cls p)) i k"
    and "\<not> p (s ! j)" and "\<not> p (s ! k)"
  shows "j = k"
proof -
  note a = spans_Star_Cls [OF assms(1)] and b = spans_Star_Cls [OF assms(2)]
  show ?thesis
  proof (rule ccontr)
    assume "j \<noteq> k"
    then consider "j < k" | "k < j" by linarith
    then show False using a b assms(3,4) by cases auto
  qed
qed

lemmas spans_rules = spans_Seq spans_Alt spans_Cls spans_Grp

lemma finditer_Nil_iff:
  "find_matches r s = [] \<longleftrightarrow> (\<forall>i \<le> length s. \<forall>j. \<not> spans s r i j)"
proof -
  have "find_matches r s = [] \<longleftrightarrow> re_search r s = None"
    by (simp add: finditer.simps [of r s 0] split: option.splits)
  also have "\<dots> \<longleftrightarrow> (\<forall>i \<le> length s. match_at r s i = None)"
  proof (cases "re_search r s")
    case (Some m)
    note m = search_Some [OF this]
    then have "m_start m \<le> length s" by linarith
    with Some m show ?thesis by (metis option.distinct(1))
  qed (use search_None [of r s 0] in auto)
  also have "\<dots> \<longleftrightarrow> (\<forall>i \<le> length s. \<forall>j. \<not> spans s r i j)"
    using match_at_None_iff by blast
  finally show ?thesis .
qed

end
