(* ===== verification/Py_Data.thy ===== *)
theory Py_Data
  imports Py_Prelude
begin

text \<open>
  Python's \<open>dict\<close> with its insertion order, the tables the report builds with it, stable sorting,
  and decimal and hexadecimal numerals (\<open>\%d\<close>, \<open>int(s)\<close>, \<open>int(s, 16)\<close>).
\<close>

section \<open>Dictionaries\<close>

type_synonym ('k, 'v) dict = "('k \<times> 'v) list"

text \<open>Storing under a new key appends it; storing under an old key keeps its place.\<close>

fun dict_put :: "'k \<Rightarrow> 'v \<Rightarrow> ('k, 'v) dict \<Rightarrow> ('k, 'v) dict" where
  "dict_put k v [] = [(k, v)]"
| "dict_put k v ((k', v') # d) = (if k' = k then (k, v) # d else (k', v') # dict_put k v d)"

abbreviation dict_get :: "('k, 'v) dict \<Rightarrow> 'k \<Rightarrow> 'v option" where
  "dict_get \<equiv> map_of"

definition get_default :: "'v \<Rightarrow> ('k, 'v) dict \<Rightarrow> 'k \<Rightarrow> 'v" where
  "get_default z d k = (case dict_get d k of None \<Rightarrow> z | Some v \<Rightarrow> v)"

definition dict_index :: "('k, 'v) dict \<Rightarrow> 'k \<Rightarrow> 'v result" where
  "dict_index d k = (case dict_get d k of None \<Rightarrow> Inl KeyError | Some v \<Rightarrow> Inr v)"

abbreviation keys :: "('k, 'v) dict \<Rightarrow> 'k list" where
  "keys d \<equiv> map fst d"

text \<open>What every client of a dictionary relies on.\<close>

locale dictionary =
  fixes put :: "'k \<Rightarrow> 'v \<Rightarrow> 'd \<Rightarrow> 'd"
    and lookup :: "'d \<Rightarrow> 'k \<Rightarrow> 'v option"
    and items :: "'d \<Rightarrow> ('k \<times> 'v) list"
    and ok :: "'d \<Rightarrow> bool"
  assumes ok_put: "ok d \<Longrightarrow> ok (put k v d)"
    and lookup_put: "ok d \<Longrightarrow> lookup (put k v d) = (lookup d)(k \<mapsto> v)"
    and items_distinct: "ok d \<Longrightarrow> distinct (map fst (items d))"
    and items_lookup: "ok d \<Longrightarrow> map_of (items d) = lookup d"
    and items_order: "ok d \<Longrightarrow>
      map fst (items (put k v d)) = (if lookup d k = None then map fst (items d) @ [k] else map fst (items d))"
begin

definition update :: "'v \<Rightarrow> ('x \<Rightarrow> 'k) \<Rightarrow> ('x \<Rightarrow> 'v \<Rightarrow> 'v) \<Rightarrow> 'x \<Rightarrow> 'd \<Rightarrow> 'd" where
  "update z key upd x d =
     put (key x) (upd x (case lookup d (key x) of None \<Rightarrow> z | Some v \<Rightarrow> v)) d"

lemma ok_fold: "ok d \<Longrightarrow> ok (fold (update z key upd) xs d)"
  by (induction xs arbitrary: d) (auto simp: update_def ok_put)

lemma lookup_update: "ok d \<Longrightarrow> lookup (update z key upd x d) =
    (lookup d)(key x \<mapsto> upd x (case lookup d (key x) of None \<Rightarrow> z | Some v \<Rightarrow> v))"
  by (simp add: update_def lookup_put)

lemma lookup_fold:
  "ok d \<Longrightarrow> lookup (fold (update z key upd) xs d) k =
     (if k \<in> key ` set xs
      then Some (fold upd (filter (\<lambda>x. key x = k) xs) (case lookup d k of None \<Rightarrow> z | Some v \<Rightarrow> v))
      else lookup d k)"
proof (induction xs arbitrary: d)
  case (Cons x xs)
  then have "ok (update z key upd x d)" by (simp add: update_def ok_put)
  note IH = Cons.IH [OF this]
  have none: "filter (\<lambda>x. key x = k) xs = []" if "k \<notin> key ` set xs"
    using that by (auto simp: filter_empty_conv)
  show ?case
    using Cons.prems none by (auto simp: IH lookup_update)
qed simp

lemma in_items_iff: "ok d \<Longrightarrow> (k, v) \<in> set (items d) \<longleftrightarrow> lookup d k = Some v"
  by (metis items_distinct items_lookup map_of_eq_Some_iff)

end

lemma dict_put_keys:
  "keys (dict_put k v d) = (if dict_get d k = None then keys d @ [k] else keys d)"
  by (induction d) auto

lemma dict_put_lookup: "dict_get (dict_put k v d) = (dict_get d)(k \<mapsto> v)"
  by (induction d) (auto simp: fun_eq_iff)

interpretation pd: dictionary dict_put dict_get "\<lambda>d. d" "\<lambda>d. distinct (keys d)"
  by unfold_locales (auto simp: dict_put_keys dict_put_lookup map_of_eq_None_iff)

lemma fold_put_lookup:
  "dict_get (fold (\<lambda>x. dict_put (key x) (v x)) xs d) = dict_get d ++ map_of (rev (map (\<lambda>x. (key x, v x)) xs))"
proof (induction xs arbitrary: d)
  case (Cons x xs)
  show ?case by (simp add: Cons dict_put_lookup map_add_def fun_eq_iff split: option.splits)
qed simp

text \<open>
  The tables of the report: a \<open>defaultdict\<close> folded over the rows, \<open>d[key(x)]\<close> updated by each row.
\<close>

definition tally :: "'v \<Rightarrow> ('x \<Rightarrow> 'k) \<Rightarrow> ('x \<Rightarrow> 'v \<Rightarrow> 'v) \<Rightarrow> 'x list \<Rightarrow> ('k, 'v) dict" where
  "tally z key upd xs = fold (\<lambda>x d. dict_put (key x) (upd x (get_default z d (key x))) d) xs []"

lemma tally_update: "tally z key upd xs = fold (pd.update z key upd) xs []"
  unfolding tally_def pd.update_def get_default_def by meson

lemma tally_distinct: "distinct (keys (tally z key upd xs))"
  unfolding tally_update by (rule pd.ok_fold) simp

lemma tally_lookup:
  "dict_get (tally z key upd xs) k =
     (if k \<in> key ` set xs then Some (fold upd (filter (\<lambda>x. key x = k) xs) z) else None)"
  unfolding tally_update by (subst pd.lookup_fold) simp_all

lemma tally_get: "get_default z (tally z key upd xs) k = fold upd (filter (\<lambda>x. key x = k) xs) z"
proof (cases "k \<in> key ` set xs")
  case False
  then have "filter (\<lambda>x. key x = k) xs = []" by (auto simp: filter_empty_conv)
  with False show ?thesis by (simp add: get_default_def tally_lookup)
qed (simp add: get_default_def tally_lookup)

text \<open>
  A quantity that each row adds to (a count, a sum of units) is conserved: the entry of a key holds
  the sum over the rows with that key, and the sum over the table is the sum over the rows.
\<close>

locale additive =
  fixes z :: 'v and upd :: "'x \<Rightarrow> 'v \<Rightarrow> 'v" and meas :: "'v \<Rightarrow> int" and weight :: "'x \<Rightarrow> int"
  assumes meas_zero: "meas z = 0"
    and meas_upd: "meas (upd x v) = meas v + weight x"
begin

lemma meas_fold: "meas (fold upd xs v) = meas v + sum_list (map weight xs)"
  by (induction xs arbitrary: v) (simp_all add: meas_upd)

lemma tally_entry:
  "meas (get_default z (tally z key upd xs) k) = sum_list (map weight (filter (\<lambda>x. key x = k) xs))"
  by (simp add: tally_get meas_fold meas_zero)

lemma put_total:
  assumes "distinct (keys d)"
  shows "sum_list (map (\<lambda>kv. meas (snd kv)) (dict_put k (upd x (get_default z d k)) d))
       = sum_list (map (\<lambda>kv. meas (snd kv)) d) + weight x"
  using assms
proof (induction d)
  case Nil
  then show ?case by (simp add: get_default_def meas_upd meas_zero)
next
  case (Cons kv d)
  obtain k' v' where kv: "kv = (k', v')" by (cases kv)
  show ?case
  proof (cases "k' = k")
    case True
    then show ?thesis by (simp add: kv get_default_def meas_upd)
  next
    case False
    with Cons show ?thesis by (simp add: kv get_default_def)
  qed
qed

lemma tally_total:
  "sum_list (map (\<lambda>kv. meas (snd kv)) (tally z key upd xs)) = sum_list (map weight xs)"
proof -
  have "sum_list (map (\<lambda>kv. meas (snd kv)) (fold (\<lambda>x d. dict_put (key x) (upd x (get_default z d (key x))) d) xs d))
      = sum_list (map (\<lambda>kv. meas (snd kv)) d) + sum_list (map weight xs)" if "distinct (keys d)" for d
    using that
  proof (induction xs arbitrary: d)
    case (Cons x xs)
    have "distinct (keys (dict_put (key x) (upd x (get_default z d (key x))) d))"
      using Cons.prems by (rule pd.ok_put)
    note IH = Cons.IH [OF this]
    show ?case using put_total [OF Cons.prems, of "key x" x] by (simp add: IH)
  qed simp
  then show ?thesis by (simp add: tally_def)
qed

end

section \<open>Sorting\<close>

text \<open>\<open>sorted(xs, key=f)\<close> is stable, as \<open>sort_key\<close> is.\<close>

lemma sort_key_stable: "filter (\<lambda>y. f y = f x) (sort_key f xs) = filter (\<lambda>y. f y = f x) xs"
  by (rule sort_key_stable)

lemma take_sort_key_max:
  assumes "x \<in> set (take n (sort_key f xs))" and "y \<in> set (drop n (sort_key f xs))"
  shows "f x \<le> (f y :: 'a :: linorder)"
proof -
  have "sorted (map f (take n (sort_key f xs) @ drop n (sort_key f xs)))" by simp
  then have "\<forall>a \<in> f ` set (take n (sort_key f xs)). \<forall>b \<in> f ` set (drop n (sort_key f xs)). a \<le> b"
    unfolding map_append sorted_append by simp
  with assms show ?thesis by blast
qed

section \<open>Numerals\<close>

definition digit_char :: "nat \<Rightarrow> char" where
  "digit_char d = char_of (48 + d)"

definition digit_value :: "char \<Rightarrow> nat" where
  "digit_value c = of_char c - 48"

lemma digit_value_char [simp]: "d < 10 \<Longrightarrow> digit_value (digit_char d) = d"
  by (simp add: digit_value_def digit_char_def of_char_of take_bit_eq_mod)

lemma is_digit_char [simp]: "d < 10 \<Longrightarrow> is_digit (digit_char d)"
  by (simp add: is_digit_def digit_char_def of_char_of take_bit_eq_mod)

lemma digit_char_value [simp]: "is_digit c \<Longrightarrow> digit_char (digit_value c) = c"
  by (simp add: is_digit_def digit_char_def digit_value_def)

lemma digit_value_less: "is_digit c \<Longrightarrow> digit_value c < 10"
  unfolding is_digit_def digit_value_def by linarith

fun show_nat :: "nat \<Rightarrow> string" where
  "show_nat n = (if n < 10 then [digit_char n] else show_nat (n div 10) @ [digit_char (n mod 10)])"

declare show_nat.simps [simp del]

definition digits_value :: "string \<Rightarrow> nat" where
  "digits_value s = foldl (\<lambda>a c. 10 * a + digit_value c) 0 s"

lemma digits_value_snoc: "digits_value (s @ [c]) = 10 * digits_value s + digit_value c"
  by (simp add: digits_value_def)

lemma digits_value_show_nat [simp]: "digits_value (show_nat n) = n"
proof (induction n rule: show_nat.induct)
  case (1 n)
  show ?case
  proof (cases "n < 10")
    case True
    then show ?thesis by (simp add: show_nat.simps [of n] digits_value_def)
  next
    case False
    then show ?thesis using "1.IH" by (simp add: show_nat.simps [of n] digits_value_snoc)
  qed
qed

lemma show_nat_digits: "c \<in> set (show_nat n) \<Longrightarrow> is_digit c"
proof (induction n rule: show_nat.induct)
  case (1 n)
  then show ?case by (auto simp: show_nat.simps [of n] split: if_splits)
qed

lemma show_nat_nonempty [simp]: "show_nat n \<noteq> []"
  by (simp add: show_nat.simps [of n])

lemma show_nat_inject [simp]: "show_nat m = show_nat n \<longleftrightarrow> m = n"
  by (metis digits_value_show_nat)

definition show_int :: "int \<Rightarrow> string" where
  "show_int i = (if i < 0 then CHR ''-'' # show_nat (nat (- i)) else show_nat (nat i))"

text \<open>
  The digits of \<open>int(s)\<close>: non-empty groups of digits joined by single underscores, after an optional
  sign and between white space.
\<close>

definition digit_groups :: "(char \<Rightarrow> bool) \<Rightarrow> string \<Rightarrow> bool" where
  "digit_groups P s \<longleftrightarrow> (\<forall>g \<in> set (split_char CHR ''_'' s). g \<noteq> [] \<and> (\<forall>c \<in> set g. P c))"

definition signed :: "string \<Rightarrow> bool \<times> string" where
  "signed s = (case s of
      [] \<Rightarrow> (False, [])
    | c # cs \<Rightarrow> if c = CHR ''-'' then (True, cs) else if c = CHR ''+'' then (False, cs) else (False, s))"

definition py_int :: "string \<Rightarrow> int result" where
  "py_int s =
     (let (neg, body) = signed (strip s) in
      if digit_groups is_digit body
      then let n = int (digits_value (filter is_digit body)) in Inr (if neg then - n else n)
      else Inl ValueError)"

lemma strip_id:
  assumes "s \<noteq> []" and "\<not> is_space (hd s)" and "\<not> is_space (last s)"
  shows "strip s = s"
proof -
  have "dropWhile is_space s = s" using assms(1,2) by (cases s) auto
  moreover have "dropWhile is_space (rev s) = rev s"
    using assms(1,3) by (metis dropWhile_eq_Nil_conv dropWhile_eq_self_iff hd_rev rev_is_Nil_conv)
  ultimately show ?thesis by (simp add: strip_def)
qed

lemma digit_class_facts:
  assumes "is_digit c"
  shows "c \<noteq> CHR ''_''" "c \<noteq> CHR ''-''" "c \<noteq> CHR ''+''" "\<not> is_space c"
  using assms is_digit_not_space by (auto simp: is_digit_def)

lemma py_int_digits:
  assumes "s \<noteq> []" and "\<And>c. c \<in> set s \<Longrightarrow> is_digit c"
  shows "py_int s = Inr (int (digits_value s))"
proof -
  note cls = digit_class_facts [OF assms(2)]
  have st: "strip s = s"
    using assms(1) cls(4) by (intro strip_id) auto
  have sg: "signed s = (False, s)"
    using assms(1) cls(2,3) by (cases s) (auto simp: signed_def)
  have "split_char CHR ''_'' s = [s]"
    using cls(1) by (intro split_char_no_sep) auto
  then have dg: "digit_groups is_digit s"
    using assms by (simp add: digit_groups_def)
  have "filter is_digit s = s" using assms(2) by (simp add: filter_id_conv)
  with st sg dg show ?thesis by (simp add: py_int_def)
qed

lemma py_int_show_nat [simp]: "py_int (show_nat n) = Inr (int n)"
  using py_int_digits [of "show_nat n"] show_nat_digits by simp

end
