(* ===== verification/Instrument_Copies.thy ===== *)
theory Instrument_Copies
  imports Py_Scan "HOL-Library.List_Lexorder" "HOL-Library.Char_ord" Py_Data
begin

text \<open>
  \<^verbatim>\<open>blorp/scripts/attribution/instrument_copies.py\<close>: the rewrite of generated C that counts List and
  String copies per call site. \<open>instrument\<close> hooks the four families of update helpers,
  \<open>split_statements\<close> puts every statement on a line of its own, and \<open>copies_main\<close> is the script. The
  hash table of the C prelude is modelled in \<open>Prof_Table\<close>.
\<close>

section \<open>The script\<close>

definition DOC_COPIES :: string where
  \<open>DOC_COPIES = ''Instrument Blorp generated C to attribute List and String update copies to call sites.

Scratch measurement only: it rewrites a copy of the generated C and never touches the
repository. macOS only (it reads `_mh_execute_header` for the load address).

Usage: instrument_copies.py IN.c OUT.c

The runtime has two helpers per update (append, set, concat for Lists; concat and
append_int for Strings). The borrowed helper always copies the whole value. The
`*_take_left` helper updates in place when the caller holds the only reference and
otherwise falls back to the borrowed helper and drops its argument. The output
records, per call site (a return address), how often each path ran and how many
List slots or String bytes it moved:
  list_unique / string_unique      in place (nothing copied; units are the live length
                                   the copy would have cost)
  list_fallback / string_fallback  shared root, copied by the take_left helper
  list_borrowed / string_borrowed  called directly on a borrowed value, copied
Helpers are marked noinline and every statement is put on its own line so that
`-g` line numbers name the call. The program writes $BLORP_PROF_OUT at exit.
''\<close>

definition PRELUDE_COPIES :: string where
  \<open>PRELUDE_COPIES = ''
#include <stdint.h>
#include <stdio.h>
#include <stdlib.h>
#include <mach-o/loader.h>
extern const struct mach_header_64 _mh_execute_header;
enum { PROF_LIST_FALLBACK, PROF_LIST_UNIQUE, PROF_STRING_FALLBACK, PROF_STRING_UNIQUE,
       PROF_LIST_BORROWED, PROF_STRING_BORROWED, PROF_KINDS };
static const char *prof_kind_names[] = {"list_fallback","list_unique","string_fallback","string_unique",
                                        "list_borrowed","string_borrowed"};
#define PROF_SLOTS (1u<<16)
struct prof_row { void *address; unsigned kind; unsigned long long hits, units; };
static struct prof_row prof_rows[PROF_SLOTS];
static void prof_hit(unsigned kind, void *address, long long units) {
  uintptr_t key = ((uintptr_t)address * 0x9E3779B97F4A7C15ull) ^ kind;
  unsigned slot = (unsigned)(key >> 20) & (PROF_SLOTS - 1);
  for (;;) {
    struct prof_row *row = &prof_rows[slot];
    if (row->hits == 0) { row->address = address; row->kind = kind; }
    if (row->address == address && row->kind == kind) { row->hits++; row->units += (unsigned long long)units; return; }
    slot = (slot + 1) & (PROF_SLOTS - 1);
  }
}
static void prof_report(void) {
  FILE *out = fopen(getenv("BLORP_PROF_OUT") ? getenv("BLORP_PROF_OUT") : "prof.tsv", "w");
  fprintf(out, "#load'' @ [backslash] @ ''t%p'' @ [backslash] @ ''n", (void *)&_mh_execute_header);
  for (unsigned i = 0; i < PROF_SLOTS; i++)
    if (prof_rows[i].hits)
      fprintf(out, "%s'' @ [backslash] @ ''t%p'' @ [backslash] @ ''t%llu'' @ [backslash] @ ''t%llu'' @ [backslash] @ ''n", prof_kind_names[prof_rows[i].kind], prof_rows[i].address,
              prof_rows[i].hits, prof_rows[i].units);
  fclose(out);
}
__attribute__((constructor)) static void prof_start(void) { atexit(prof_report); }
#define PROF_RA __builtin_return_address(0)
''\<close>

definition NOINLINE :: string where
  \<open>NOINLINE = ''__attribute__((noinline)) ''\<close>

text \<open>The class \<^verbatim>\<open>[a-z0-9_]\<close>.\<close>

definition is_lower_word :: "char \<Rightarrow> bool" where
  "is_lower_word c \<longleftrightarrow> is_lower_ascii c \<or> is_digit c \<or> c = CHR ''_''"

definition LIST_TYPE :: re where
  "LIST_TYPE = Seq (lit ''struct blorp_l_'') (Plus (Cls is_lower_word))"

definition list_take_left :: re where
  "list_take_left = seqs [LIST_TYPE, lit ''* blorp_list_'', alts [lit ''append'', lit ''set'', lit ''concat''],
     lit ''_take_left_'', Plus (Cls is_lower_word), lit ''('', Star (none_of ''{)''), lit ''){'']"

definition list_borrowed :: re where
  "list_borrowed = seqs [LIST_TYPE, lit ''* blorp_list_'', alts [lit ''append'', lit ''set'', lit ''concat''],
     lit ''_'', Plus (Cls is_digit), lit ''_'', Plus (Cls is_lower_word), lit ''(const '', LIST_TYPE, lit '' *'',
     Grp 1 (alts [lit ''values'', lit ''left'']), lit '','', Star (none_of ''{)''), lit ''){'']"

definition string_take_left :: re where
  "string_take_left = seqs [lit ''struct blorp_string *blorp_string_'',
     alts [lit ''concat'', lit ''append_int''], lit ''_take_left(struct blorp_string *left,'',
     Star (none_of ''{)''), lit '') {'']"

definition string_borrowed :: re where
  "string_borrowed = seqs [lit ''struct blorp_string *blorp_string_'',
     alts [lit ''concat'', lit ''append_int''], lit ''(const struct blorp_string *left,'',
     Star (none_of ''{)''), lit '') {'']"

definition hook_list_take_left :: "string \<Rightarrow> pymatch \<Rightarrow> string" where
  "hook_list_take_left s m = NOINLINE @ whole s m
     @ ''prof_hit(atomic_load_explicit(&values->references,memory_order_acquire)!=1''
     @ ''?PROF_LIST_FALLBACK:PROF_LIST_UNIQUE,PROF_RA,values->length);''"

definition hook_list_borrowed :: "string \<Rightarrow> pymatch \<Rightarrow> string" where
  "hook_list_borrowed s m = NOINLINE @ whole s m
     @ ''prof_hit(PROF_LIST_BORROWED,PROF_RA,'' @ grp s m 1 @ ''->length);''"

definition hook_string_take_left :: "string \<Rightarrow> pymatch \<Rightarrow> string" where
  "hook_string_take_left s m = NOINLINE @ whole s m
     @ ''prof_hit(atomic_load_explicit(&left->references,memory_order_acquire)!=1''
     @ ''?PROF_STRING_FALLBACK:PROF_STRING_UNIQUE,PROF_RA,left->length);''"

definition hook_string_borrowed :: "string \<Rightarrow> pymatch \<Rightarrow> string" where
  "hook_string_borrowed s m = NOINLINE @ whole s m
     @ ''prof_hit(PROF_STRING_BORROWED,PROF_RA,left->length);''"

text \<open>
  The rewritten text, with the prelude in front, and the number of matches per helper family in the
  order in which the script stores them in \<open>helpers\<close>.
\<close>

definition instrument :: "string \<Rightarrow> string \<times> (string, nat) dict" where
  "instrument text0 =
     (let (text1, n1) = re_subn list_take_left hook_list_take_left text0;
          (text2, n2) = re_subn list_borrowed hook_list_borrowed text1;
          (text3, n3) = re_subn string_take_left hook_string_take_left text2;
          (text4, n4) = re_subn string_borrowed hook_string_borrowed text3
      in (PRELUDE_COPIES @ text4,
          dict_put ''string borrowed'' n4 (dict_put ''string take_left'' n3
            (dict_put ''list borrowed'' n2 (dict_put ''list take_left'' n1 [])))))"

text \<open>
  The loop of \<open>split_statements\<close> from index \<open>i\<close>: the text it appends from there on. A backslash that
  ends the source inside a literal raises \<open>IndexError\<close>, a comment that never closes \<open>ValueError\<close>.
\<close>

function split_loop :: "string \<Rightarrow> nat \<Rightarrow> char option \<Rightarrow> bool \<Rightarrow> bool \<Rightarrow> string result" where
  "split_loop source i quote directive at_line_start =
     (if i < length source then
        let c = source ! i;
            line_start = (c = newline \<or> at_line_start \<and> c \<in> {CHR '' '', tab})
        in (case quote of
              Some q \<Rightarrow>
                if c = backslash
                then if Suc i < length source
                     then bindE (split_loop source (i + 2) quote directive at_line_start)
                            (\<lambda>rest. Inr (c # source ! Suc i # rest))
                     else Inl IndexError
                else bindE (split_loop source (Suc i) (if c = q then None else quote) directive line_start)
                       (\<lambda>rest. Inr (c # rest))
            | None \<Rightarrow>
                if starts_at source ''/*'' i
                then (case find_from source ''*/'' i of
                        None \<Rightarrow> Inl ValueError
                      | Some k \<Rightarrow> bindE (split_loop source (k + 2) quote directive at_line_start)
                                   (\<lambda>rest. Inr (cut source i (k + 2) @ rest)))
                else if c \<in> {dquote, squote}
                then bindE (split_loop source (Suc i) (Some c) directive line_start) (\<lambda>rest. Inr (c # rest))
                else let directive' = (directive \<or> at_line_start \<and> c = CHR ''#'')
                     in if c = newline
                        then bindE (split_loop source (Suc i) quote False line_start) (\<lambda>rest. Inr (c # rest))
                        else if \<not> directive' \<and> c \<in> set '';{}''
                        then bindE (split_loop source (Suc i) quote directive' line_start)
                               (\<lambda>rest. Inr (c # newline # rest))
                        else bindE (split_loop source (Suc i) quote directive' line_start)
                               (\<lambda>rest. Inr (c # rest)))
      else Inr [])"
  by pat_completeness auto
termination
  by (relation "measure (\<lambda>(source, i, _). length source - i)")
    (auto dest!: find_from_Some intro!: diff_less_mono2)

declare split_loop.simps [simp del]

definition split_statements :: "string \<Rightarrow> string result" where
  "split_statements source = split_loop source 0 None False True"

text \<open>
  The messages printed at the end, in sorted order, up to the first family that matched nothing; that
  family's error then ends the script.
\<close>

definition ljust :: "nat \<Rightarrow> string \<Rightarrow> string" where
  "ljust n s = s @ replicate (n - length s) (CHR '' '')"

fun print_helpers :: "(string \<times> nat) list \<Rightarrow> string list \<times> unit result" where
  "print_helpers [] = ([], Inr ())"
| "print_helpers ((label, n) # rest) =
     (let line = ljust 18 label @ '' '' @ show_nat n
      in if n = 0
         then ([line], Inl (SystemExit (''error: instrument_copies: no '' @ label
                 @ '' helper matched; the runtime'' @ [squote] @ ''s helper shape changed'')))
         else let (lines, r) = print_helpers rest in (line # lines, r))"

text \<open>
  The script on its arguments (without the program name) and the files: the files afterwards, the
  lines on standard error, and how it ends. A file that cannot be opened raises \<open>OSError\<close>.
\<close>

definition copies_main ::
  "string list \<Rightarrow> (string \<rightharpoonup> string) \<Rightarrow> (string \<rightharpoonup> string) \<times> string list \<times> unit result" where
  "copies_main argv fs =
     (case argv of
        [input, output] \<Rightarrow>
          (case fs input of
             None \<Rightarrow> (fs, [], Inl OSError)
           | Some raw \<Rightarrow>
               (let (text, helpers) = instrument (universal_newlines raw) in
                case split_statements text of
                  Inl e \<Rightarrow> (fs, [], Inl e)
                | Inr instrumented \<Rightarrow>
                    (let (lines, r) = print_helpers (sort_key fst helpers)
                     in (fs(output \<mapsto> instrumented), lines, r))))
      | _ \<Rightarrow> (fs, [], Inl (SystemExit DOC_COPIES)))"


section \<open>A reference automaton for \<open>split_statements\<close>\<close>

text \<open>
  The same layout as a character automaton: a mode, whether a preprocessor directive is running, and
  whether only blanks precede on the line. It has no lookup of the closing \<open>*/\<close> and no index.
\<close>

datatype mode = Code | Quoted char | Escaped char | Comment bool

definition emit1 :: "string \<Rightarrow> string \<times> mode \<Rightarrow> string \<times> mode" where
  "emit1 w r = (w @ fst r, snd r)"

fun layout :: "mode \<Rightarrow> bool \<Rightarrow> bool \<Rightarrow> string \<Rightarrow> string \<times> mode" where
  "layout md d a [] = ([], md)"
| "layout (Quoted q) d a (c # cs) = emit1 [c]
     (if c = backslash then layout (Escaped q) d a cs
      else layout (if c = q then Code else Quoted q) d (c = newline \<or> a \<and> c \<in> {CHR '' '', tab}) cs)"
| "layout (Escaped q) d a (c # cs) = emit1 [c] (layout (Quoted q) d a cs)"
| "layout (Comment star) d a (c # cs) = emit1 [c]
     (if star \<and> c = CHR ''/'' then layout Code d a cs else layout (Comment (c = CHR ''*'')) d a cs)"
| "layout Code d a (c # cs) =
     (let a' = (c = newline \<or> a \<and> c \<in> {CHR '' '', tab}); d' = (d \<or> a \<and> c = CHR ''#'') in
      if c = CHR ''/'' \<and> cs \<noteq> [] \<and> hd cs = CHR ''*'' then emit1 [c] (layout (Comment False) d a cs)
      else if c \<in> {dquote, squote} then emit1 [c] (layout (Quoted c) d a' cs)
      else if c = newline then emit1 [c] (layout Code False a' cs)
      else if \<not> d' \<and> c \<in> set '';{}'' then emit1 [c, newline] (layout Code d' a' cs)
      else emit1 [c] (layout Code d' a' cs))"

definition finish :: "string \<times> mode \<Rightarrow> string result" where
  "finish r = (case snd r of
      Code \<Rightarrow> Inr (fst r)
    | Quoted q \<Rightarrow> Inr (fst r)
    | Escaped q \<Rightarrow> Inl IndexError
    | Comment star \<Rightarrow> Inl ValueError)"

lemma finish_emit1: "finish (emit1 w r) = bindE (finish r) (\<lambda>t. Inr (w @ t))"
  by (simp add: finish_def emit1_def split: mode.splits)

lemma starts_at_Cons2: "starts_at s [x, y] i \<longleftrightarrow> Suc i < length s \<and> s ! i = x \<and> s ! Suc i = y"
  by (cases "Suc i < length s") (auto simp: starts_at_def Cons_nth_drop_Suc [symmetric] drop_Suc_Cons
      dest: arg_cong [of _ _ length])

lemma drop_at: "i < length s \<Longrightarrow> drop i s = s ! i # drop (Suc i) s"
  by (simp add: Cons_nth_drop_Suc)

text \<open>Inside a comment the automaton copies up to the close that \<open>find_from\<close> finds.\<close>

lemma layout_comment:
  assumes "i \<le> length s" and "star \<Longrightarrow> 0 < i \<and> s ! (i - 1) = CHR ''*''"
  shows "case find_from s ''*/'' (if star then i - 1 else i) of
       None \<Rightarrow> (\<exists>b. layout (Comment star) d a (drop i s) = (drop i s, Comment b))
     | Some k \<Rightarrow> layout (Comment star) d a (drop i s) = emit1 (cut s i (k + 2)) (layout Code d a (drop (k + 2) s))"
  using assms
proof (induction "length s - i" arbitrary: i star)
  case 0
  then have i: "i = length s" by simp
  have "find_from s ''*/'' (if star then i - 1 else i) = None"
  proof (rule ccontr)
    assume "\<not> ?thesis"
    then obtain k where "find_from s ''*/'' (if star then i - 1 else i) = Some k" by blast
    from find_from_Some [OF this] 0 i show False
      by (auto simp: starts_at_Cons2 split: if_splits)
  qed
  with i show ?case by simp
next
  case (Suc n)
  then have i: "i < length s" by simp
  let ?c = "s ! i"
  show ?case
  proof (cases "star \<and> ?c = CHR ''/''")
    case True
    with Suc.prems i have at: "starts_at s ''*/'' (i - 1)" and pos: "0 < i"
      by (auto simp: starts_at_Cons2)
    then have "find_from s ''*/'' (i - 1) = Some (i - 1)"
      using i by (subst find_from.simps) simp
    moreover have "i - 1 + 2 = Suc i" using pos by simp
    ultimately show ?thesis using True i by (simp add: drop_at [OF i] cut_Suc emit1_def)
  next
    case False
    let ?p = "if star then i - 1 else i" and ?p' = "if ?c = CHR ''*'' then i else Suc i"
    have "\<not> starts_at s ''*/'' k" if "?p \<le> k" "k < ?p'" for k
    proof -
      from that have "star \<and> k = i - 1 \<or> k = i \<and> ?c \<noteq> CHR ''*''" by (auto split: if_splits)
      with False Suc.prems(2) show ?thesis by (auto simp: starts_at_Cons2)
    qed
    with i have "find_from s ''*/'' ?p = find_from s ''*/'' ?p'"
      by (intro find_from_skip) auto
    moreover have "case find_from s ''*/'' ?p' of
        None \<Rightarrow> (\<exists>b. layout (Comment (?c = CHR ''*'')) d a (drop (Suc i) s) = (drop (Suc i) s, Comment b))
      | Some k \<Rightarrow> layout (Comment (?c = CHR ''*'')) d a (drop (Suc i) s)
                   = emit1 (cut s (Suc i) (k + 2)) (layout Code d a (drop (k + 2) s))"
      using Suc.hyps(1) [of "Suc i" "?c = CHR ''*''"] Suc.hyps(2) i by (auto split: if_splits)
    moreover have "cut s i (k + 2) = ?c # cut s (Suc i) (k + 2)" if "find_from s ''*/'' ?p' = Some k" for k
      using find_from_Some [OF that] i cut_split [of i "Suc i" "k + 2" s]
      by (auto simp: cut_Suc split: if_splits)
    ultimately show ?thesis
      using False by (auto simp: drop_at [OF i] emit1_def split: option.splits)
  qed
qed

abbreviation mode_of :: "char option \<Rightarrow> mode" where
  "mode_of q \<equiv> (case q of None \<Rightarrow> Code | Some c \<Rightarrow> Quoted c)"

lemma comment_open: "i < length s \<Longrightarrow>
  starts_at s ''/*'' i \<longleftrightarrow> s ! i = CHR ''/'' \<and> drop (Suc i) s \<noteq> [] \<and> hd (drop (Suc i) s) = CHR ''*''"
  by (auto simp: starts_at_Cons2 hd_drop_conv_nth)

lemma split_loop_layout:
  "i \<le> length source \<Longrightarrow> split_loop source i q d a = finish (layout (mode_of q) d a (drop i source))"
proof (induction source i q d a rule: split_loop.induct)
  case (1 source i q d a)
  show ?case
  proof (cases "i < length source")
    case False
    with "1.prems" show ?thesis
      by (subst split_loop.simps) (auto simp: finish_def split: option.splits)
  next
    case i: True
    then have Suc_i: "Suc i \<le> length source" by simp
    note IH = "1.IH" [OF i refl refl]
    show ?thesis
    proof (cases q)
      case (Some c)
      show ?thesis
      proof (cases "source ! i = backslash")
        case True
        show ?thesis
        proof (cases "Suc i < length source")
          case True
          then have "drop (Suc i) source = source ! Suc i # drop (i + 2) source"
            by (simp add: drop_at)
          with True i IH(6) [OF Some \<open>source ! i = backslash\<close> True] Some \<open>source ! i = backslash\<close>
          show ?thesis
            by (simp add: split_loop.simps [of source i] drop_at [OF i] finish_emit1 bindE_def split: sum.splits)
        next
          case False
          with i have "drop (Suc i) source = []" by simp
          with False i Some \<open>source ! i = backslash\<close> show ?thesis
            by (simp add: split_loop.simps [of source i] drop_at [OF i] finish_def emit1_def)
        qed
      next
        case False
        with i IH(7) [OF Some False Suc_i] Some show ?thesis
          by (cases "source ! i = c")
            (simp_all add: split_loop.simps [of source i] drop_at [OF i] finish_emit1 Let_def)
      qed
    next
      case None
      show ?thesis
      proof (cases "starts_at source ''/*'' i")
        case True
        note co = True [unfolded comment_open [OF i]]
        have lc: "layout Code d a (drop i source) = emit1 [source ! i] (layout (Comment False) d a (drop (Suc i) source))"
          using co by (simp add: drop_at [OF i] Let_def)
        have sk: "find_from source ''*/'' i = find_from source ''*/'' (Suc i)"
          by (rule find_from_skip) (use co i in \<open>auto simp: starts_at_Cons2 less_Suc_eq_le dest!: le_antisym\<close>)
        note com = layout_comment [of "Suc i" source False d a, OF Suc_i]
        show ?thesis
        proof (cases "find_from source ''*/'' i")
          case no: None
          with com sk obtain b where "layout (Comment False) d a (drop (Suc i) source) = (drop (Suc i) source, Comment b)"
            by auto
          with lc no i True None show ?thesis
            by (simp add: split_loop.simps [of source i] finish_def emit1_def)
        next
          case (Some k)
          then have k: "Suc i \<le> k" "k + 2 \<le> length source"
            using find_from_Some [of source "''*/''" "Suc i" k] sk by (auto simp: starts_at_Cons2)
          have "cut source i (k + 2) = source ! i # cut source (Suc i) (k + 2)"
            using k i cut_split [of i "Suc i" "k + 2" source] by (simp add: cut_Suc)
          moreover have "find_from source ''*/'' (Suc i) = Some k" using Some sk by simp
          then have "layout (Comment False) d a (drop (Suc i) source)
              = emit1 (cut source (Suc i) (k + 2)) (layout Code d a (drop (k + 2) source))"
            using com by simp
          ultimately have "layout Code d a (drop i source)
              = emit1 (cut source i (k + 2)) (layout Code d a (drop (k + 2) source))"
            unfolding lc by (simp add: emit1_def)
          with IH(1) [OF None True Some k(2)] Some i True None show ?thesis
            by (simp add: split_loop.simps [of source i] finish_emit1)
        qed
      next
        case nc: False
        note nc' = nc [unfolded comment_open [OF i]]
        show ?thesis
        proof (cases "source ! i \<in> {dquote, squote}")
          case True
          with IH(2) [OF None nc True Suc_i] i nc nc' None show ?thesis
            by (auto simp: split_loop.simps [of source i] drop_at [OF i] finish_emit1 Let_def)
        next
          case nq: False
          show ?thesis
            using IH(3) [OF None nc nq refl _ Suc_i] IH(4) [OF None nc nq refl _ _ Suc_i]
              IH(5) [OF None nc nq refl _ _ Suc_i] i nc nc' nq None
            by (simp add: split_loop.simps [of source i] drop_at [OF i] finish_emit1 Let_def) argo
        qed
      qed
    qed
  qed
qed

section \<open>Properties\<close>

lemma split_statements_automaton:
  "split_statements source = finish (layout Code False True source)"
  by (simp add: split_statements_def split_loop_layout)

text \<open>The output is the source with line breaks added, each directly after one of \<open>;\<close>, \<open>{\<close>, \<open>}\<close>.\<close>

inductive breaks_added :: "string \<Rightarrow> string \<Rightarrow> bool" where
  "breaks_added [] []"
| "breaks_added s t \<Longrightarrow> breaks_added (c # s) (c # t)"
| "breaks_added s t \<Longrightarrow> c \<in> set '';{}'' \<Longrightarrow> breaks_added (c # s) (c # newline # t)"

lemma layout_breaks: "breaks_added s (fst (layout md d a s))"
proof (induction s arbitrary: md d a)
  case (Cons c cs)
  note rules = breaks_added.intros(2,3) [of cs, OF Cons.IH]
  show ?case using rules by (cases md) (simp_all add: emit1_def Let_def)
qed (simp add: breaks_added.intros)

lemma breaks_added_filter: "breaks_added s t \<Longrightarrow> filter (\<lambda>c. c \<noteq> newline) t = filter (\<lambda>c. c \<noteq> newline) s"
  by (induction rule: breaks_added.induct) auto

lemma split_statements_breaks:
  assumes "split_statements source = Inr text"
  shows "breaks_added source text"
  using assms layout_breaks [of source Code False True]
  by (auto simp: split_statements_automaton finish_def split: mode.splits)


lemma breaks_added_subseq: "breaks_added s t \<Longrightarrow> subseq s t"
  by (induction rule: breaks_added.induct) auto

lemma hooks_keep_match:
  "subseq (whole s m) (hook_list_take_left s m)"
  "subseq (whole s m) (hook_list_borrowed s m)"
  "subseq (whole s m) (hook_string_take_left s m)"
  "subseq (whole s m) (hook_string_borrowed s m)"
  unfolding hook_list_take_left_def hook_list_borrowed_def hook_string_take_left_def
    hook_string_borrowed_def by (rule subseq_middle)+

lemma instrument_subseq: "subseq source (fst (instrument source))"
proof -
  let ?t1 = "re_sub list_take_left hook_list_take_left source"
  let ?t2 = "re_sub list_borrowed hook_list_borrowed ?t1"
  let ?t3 = "re_sub string_take_left hook_string_take_left ?t2"
  let ?t4 = "re_sub string_borrowed hook_string_borrowed ?t3"
  have "subseq source ?t1" "subseq ?t1 ?t2" "subseq ?t2 ?t3" "subseq ?t3 ?t4"
    by (intro re_sub_subseq hooks_keep_match)+
  then have "subseq source ?t4" using subseq_order.trans by blast
  then show ?thesis by (simp add: instrument_def re_subn_def list_emb_append2)
qed

lemma copies_main_run:
  assumes "fs input = Some raw" and "split_statements (fst (instrument (universal_newlines raw))) = Inr text"
  shows "copies_main [input, output] fs =
    (fs(output \<mapsto> text), print_helpers (sort_key fst (snd (instrument (universal_newlines raw)))))"
  using assms by (simp add: copies_main_def case_prod_beta Let_def)

text \<open>The families in the order in which the script reports them, each with the text that its rewrite runs on.\<close>

definition families :: "string \<Rightarrow> (string \<times> re \<times> string) list" where
  "families source0 =
     (let source1 = re_sub list_take_left hook_list_take_left source0;
          source2 = re_sub list_borrowed hook_list_borrowed source1;
          source3 = re_sub string_take_left hook_string_take_left source2
      in [(''list borrowed'', list_borrowed, source1), (''list take_left'', list_take_left, source0),
          (''string borrowed'', string_borrowed, source3), (''string take_left'', string_take_left, source2)])"

text \<open>A pattern occurs in a text, whatever a search for it would report.\<close>

definition occurs :: "re \<Rightarrow> string \<Rightarrow> bool" where
  "occurs r s \<longleftrightarrow> (\<exists>i \<le> length s. \<exists>j. spans s r i j)"

lemma occurs_iff: "occurs r s \<longleftrightarrow> 0 < length (find_matches r s)"
  using finditer_Nil_iff [of r s] by (auto simp: occurs_def)

lemma instrument_families:
  "sort_key fst (snd (instrument source0)) = map (\<lambda>(label, r, s). (label, length (find_matches r s))) (families source0)"
  by (simp add: instrument_def families_def re_subn_def Let_def)

lemma print_helpers_result:
  "snd (print_helpers (map (\<lambda>(label, r, s). (label, length (find_matches r s))) fs)) =
     (case find (\<lambda>(label, r, s). \<not> occurs r s) fs of
        None \<Rightarrow> Inr ()
      | Some (label, r, s) \<Rightarrow> Inl (SystemExit (''error: instrument_copies: no '' @ label
          @ '' helper matched; the runtime'' @ [squote] @ ''s helper shape changed'')))"
proof (induction fs)
  case (Cons f fs)
  obtain label r s where f: "f = (label, r, s)" by (metis prod.exhaust)
  show ?case using Cons.IH by (cases "occurs r s") (simp_all add: f occurs_iff Let_def case_prod_beta)
qed simp

section \<open>Properties\<close>

text \<open>C8: the script changes no file but its output, and the text it writes there contains the whole input,
  read with universal newlines, as a subsequence: the instrumented program only gains text.\<close>

theorem copies_main_inserts_only:
  "fst (copies_main [input, output] fs) = fs
   \<or> (\<exists>raw out. fs input = Some raw \<and> fst (copies_main [input, output] fs) = fs(output \<mapsto> out)
        \<and> subseq (universal_newlines raw) out)"
proof (cases "fs input")
  case None
  then show ?thesis by (simp add: copies_main_def)
next
  case (Some raw)
  let ?t = "fst (instrument (universal_newlines raw))"
  show ?thesis
  proof (cases "split_statements ?t")
    case (Inl e)
    with Some show ?thesis by (simp add: copies_main_def case_prod_beta Let_def)
  next
    case (Inr out)
    with Some have "fst (copies_main [input, output] fs) = fs(output \<mapsto> out)" by (simp add: copies_main_run)
    moreover have "subseq (universal_newlines raw) out"
      using instrument_subseq breaks_added_subseq [OF split_statements_breaks [OF Inr]]
        subseq_order.trans by blast
    ultimately show ?thesis using Some by blast
  qed
qed

text \<open>C22: the script on a readable input. If the statements cannot be split, it fails and writes nothing. Otherwise it
  writes its output, and then ends well exactly when each of the four helper families occurs in the text that its
  rewrite runs on; if one does not, it exits with an error that names the first missing family in alphabetical
  order, with the output file already written.\<close>

theorem copies_main_outcome:
  assumes "fs input = Some raw"
  shows "(\<exists>e. split_statements (fst (instrument (universal_newlines raw))) = Inl e \<and> copies_main [input, output] fs = (fs, [], Inl e))
    \<or> (\<exists>out lines. split_statements (fst (instrument (universal_newlines raw))) = Inr out
        \<and> copies_main [input, output] fs = (fs(output \<mapsto> out), lines,
            case find (\<lambda>(label, r, s). \<not> occurs r s) (families (universal_newlines raw)) of
              None \<Rightarrow> Inr ()
            | Some (label, r, s) \<Rightarrow> Inl (SystemExit (''error: instrument_copies: no '' @ label
                @ '' helper matched; the runtime'' @ [squote] @ ''s helper shape changed''))))"
proof (cases "split_statements (fst (instrument (universal_newlines raw)))")
  case (Inl e)
  with assms show ?thesis by (simp add: copies_main_def case_prod_beta Let_def)
next
  case (Inr out)
  have "copies_main [input, output] fs = (fs(output \<mapsto> out), fst (print_helpers (sort_key fst (snd (instrument (universal_newlines raw))))),
      snd (print_helpers (sort_key fst (snd (instrument (universal_newlines raw))))))"
    unfolding copies_main_run [of fs input, OF assms Inr] by simp
  then show ?thesis unfolding instrument_families print_helpers_result using Inr by blast
qed

text \<open>A text without any helper.\<close>

theorem copies_main_outcome_witness:
  "\<exists>e. snd (snd (copies_main [''i'', ''o''] [''i'' \<mapsto> ''x;''])) = Inl e"
proof -
  have "list_ex (\<lambda>(label, r, s). find_matches r s = []) xs \<Longrightarrow> find (\<lambda>(label, r, s). \<not> occurs r s) xs \<noteq> None"
    for xs :: "(string \<times> re \<times> string) list"
    by (auto simp: list_ex_iff find_None_iff occurs_iff)
  moreover have "list_ex (\<lambda>(label, r, s). find_matches r s = []) (families (universal_newlines ''x;''))" by code_simp
  ultimately have "find (\<lambda>(label, r, s). \<not> occurs r s) (families (universal_newlines ''x;'')) \<noteq> None" by blast
  then obtain label r s where found: "find (\<lambda>(label, r, s). \<not> occurs r s) (families (universal_newlines ''x;'')) = Some (label, r, s)"
    by (metis option.exhaust prod.exhaust)
  have i: "[''i'' \<mapsto> ''x;''] ''i'' = Some ''x;''" by simp
  show ?thesis
    by (rule disjE [OF copies_main_outcome [of "[''i'' \<mapsto> ''x;'']", OF i, of "''o''", unfolded found]])
      (elim exE conjE, simp only: snd_conv option.case prod.case, blast)+
qed

text \<open>C19: splitting statements computes what a one-pass automaton over the characters computes (code, comment,
  literal, escape; inside or outside a directive), it fails only on an unterminated comment or a literal
  cut off after a backslash, and it adds nothing but line breaks, each right after a semicolon or a brace.\<close>

theorem split_statements_spec:
  "split_statements source = finish (layout Code False True source)
   \<and> (case split_statements source of Inl e \<Rightarrow> e \<in> {ValueError, IndexError} | Inr out \<Rightarrow> breaks_added source out)"
  using split_statements_breaks [of source]
  by (auto simp: split_statements_automaton finish_def split: sum.splits mode.splits)

end
