(* ===== verification/Instrument_RC.thy ===== *)
theory Instrument_RC
  imports Py_Scan Py_Data
begin

unbundle bit_operations_syntax

text \<open>
  \<^verbatim>\<open>blorp/scripts/attribution/instrument_rc.py\<close>: the rewrite of generated C that counts every atomic
  reference-count operation, by kind or by kind and source. The definitions follow the script from
  its patterns to its \<open>main\<close>; \<open>Instrument_RC_Props\<close> has the lemmas.
\<close>

section \<open>Constants and patterns\<close>

definition DOC_RC :: string where
  \<open>DOC_RC = ''Count every atomic reference-count operation in Blorp generated C, by kind and by source.

Scratch measurement only: it rewrites a copy of the generated C and never touches
the repository. The instrumented program counts operations in plain integers, so
it is valid only because the compiler is single-threaded.

Usage:
  instrument_rc.py --kinds IN.c OUT.c
      Count by kind (record, list, union, string) and direction. Needs no markers;
      this is the uninstrumented total the tagged counts must sum to.
  instrument_rc.py --tagged MARKED.c OUT.c CATEGORIES.tsv
      Also count by source and by the Blorp function responsible. MARKED.c is the
      output of the marker compiler (patch_emit_markers.py); CATEGORIES.tsv
      receives the category names in tag order.
The instrumented program writes `kind direction function category count` rows to
the file named by $BLORP_RC_OUT when it exits (--kinds: `kind direction count`).

How a source is known. Every call of a dup or drop helper becomes
`(blorp_rc_tag = T, helper)(...)`, so the atomic operation at the top of the helper
counts under T. The tag packs the Blorp function number N of `blorp_f_N` above six
category bits. T depends on where the call sits:
  - inside a marker region of a user function: the region'' @ [squote] @ ''s reason and borrow source
    (acquire:reason:source), or, for a drop, the origin of the dropped owner
    (drop:origin; an owner no marker created is an error). `+pair` marks an acquisition
    the markers saw partnered with a drop, and `+pair:REASON` a drop whose partner
    acquisition had that reason;
  - in a drop helper that has its own atomic operation, after that operation: the
    helper frees its children (cascade:record|list|union);
  - in a list helper (get, append, ...): runtime_list:<operation>;
  - in a helper with no atomic operation of its own (an unboxed union, an inline
    record): the tag its caller set, saved on entry and restored before each call,
    so one Blorp-level acquisition stays one acquisition.
Calls of other runtime functions set only the function bits. A call of a helper in a
user function outside every marker region counts as `unmarked`; the report states it.

The shared empty List'' @ [squote] @ ''s owner count exists only in diagnostic builds, where
`blorp_list_empty_acquire` is a function; in the normal build it is a macro with no
atomic operation, so the counted program is the normal build and ignores it.
''\<close>

definition KINDS :: "string list" where
  "KINDS = [''record'', ''list'', ''union'', ''string'', ''other'']"

definition CATEGORY_BITS :: nat where
  "CATEGORY_BITS = 7"

definition CATEGORY_MASK :: nat where
  "CATEGORY_MASK = push_bit CATEGORY_BITS 1 - 1"

definition NAME_WINDOW :: int where
  "NAME_WINDOW = 200"

abbreviation word_re :: re where "word_re \<equiv> Cls is_word"
abbreviation space_re :: re where "space_re \<equiv> Cls is_space"
abbreviation digit_re :: re where "digit_re \<equiv> Cls is_digit"

definition HELPER :: re where
  "HELPER = Alt
     (seqs [lit ''blorp_'', alts [lit ''record'', lit ''list'', lit ''union'', lit ''callable''], lit ''_'',
            alts [lit ''dup'', lit ''drop''], lit ''_'', Plus word_re])
     (Seq (lit ''blorp_string_'') (alts [lit ''retain'', lit ''release'']))"

definition HELPER_CALL :: re where
  "HELPER_CALL = seqs [WordBoundary, Grp 1 HELPER, Star space_re, lit ''('']"

definition LIST_OPERATION :: re where
  "LIST_OPERATION = alts [lit ''get'', lit ''append'', lit ''concat'', lit ''set'', lit ''suffix'', lit ''repeat'']"

definition LIST_RUNTIME_CALL :: re where
  "LIST_RUNTIME_CALL = seqs [WordBoundary, Grp 1 (seqs [lit ''blorp_list_'', LIST_OPERATION, Star word_re]),
     Star space_re, lit ''('']"

definition STRING_RUNTIME_CALL :: re where
  "STRING_RUNTIME_CALL = seqs [WordBoundary,
     Grp 1 (seqs [lit ''blorp_string_'',
                  NotAhead (Alt (Seq (lit ''retain'') WordBoundary) (Seq (lit ''release'') WordBoundary)),
                  Plus word_re]),
     Star space_re, lit ''('']"

definition LIST_RUNTIME_NAME :: re where
  "LIST_RUNTIME_NAME = seqs [lit ''blorp_list_'', Grp 1 LIST_OPERATION, lit ''_'']"

definition HELPER_NAME :: re where
  "HELPER_NAME = Alt
     (seqs [lit ''blorp_'', alts [lit ''record'', lit ''list'', lit ''union'', lit ''callable''], lit ''_'',
            Grp 1 (alts [lit ''dup'', lit ''drop'']), lit ''_'', Plus word_re, TextEnd])
     (seqs [lit ''blorp_string_'', Grp 2 (alts [lit ''retain'', lit ''release'']), TextEnd])"

definition USER_NAME :: re where
  "USER_NAME = seqs [lit ''blorp_f_'', Grp 1 (Plus digit_re), TextEnd]"

definition ATOMIC :: re where
  "ATOMIC = seqs [lit ''atomic_fetch_'', Grp 1 (alts [lit ''add'', lit ''sub'']), lit ''_explicit('',
     Star space_re, lit ''&'']"

definition MARKER :: re where
  "MARKER = seqs [lit ''/*RC:'', Grp 1 (Star (none_of ''*'')), lit ''*/'']"

text \<open>The tokens of the brace scan: literals, comments, directives (with their continuation lines), braces.\<close>

definition SCAN :: re where
  "SCAN = alts
     [seqs [chr dquote, Star (Alt (Seq (chr backslash) dotall) (none_of [dquote, backslash])), chr dquote],
      seqs [chr squote, Star (Alt (Seq (chr backslash) dotall) (none_of [squote, backslash])), chr squote],
      seqs [lit ''/*'', Lazy dotall, lit ''*/''],
      Seq (lit ''//'') (Star (none_of [newline])),
      seqs [LineStart, Star (any_of [CHR '' '', tab]), chr (CHR ''#''),
            Star (Alt (Seq (chr backslash) (chr newline)) (none_of [newline]))],
      any_of ''{}'']"

definition BARE_HELPER :: re where
  "BARE_HELPER = seqs [WordBoundary, Grp 1 HELPER, WordBoundary, NotAhead (Seq (Star space_re) (lit ''(''))]"

definition TRAILING_WORD :: re where
  "TRAILING_WORD = seqs [Grp 1 (Plus word_re), Star space_re, TextEnd]"

definition USER_FUNCTION :: re where
  "USER_FUNCTION = seqs [WordBoundary, lit ''blorp_f_'', Grp 1 (Plus digit_re), lit ''('']"

definition fail_rc :: "string \<Rightarrow> 'a result" where
  "fail_rc message = Inl (SystemExit (''error: instrument_rc: '' @ message))"

section \<open>Finding function bodies\<close>

text \<open>The loop that steps back over white space: the index where it stops, or \<open>-1\<close>.\<close>

fun skip_space_back :: "string \<Rightarrow> nat \<Rightarrow> int" where
  "skip_space_back source 0 = -1"
| "skip_space_back source (Suc i) = (if is_space (source ! i) then skip_space_back source i else int i)"

text \<open>
  The loop that steps back to the parenthesis that balances: from index \<open>i - 1\<close> down, the index of the
  parenthesis, or \<open>-1\<close> when the start of the text is reached first.
\<close>

fun match_back :: "string \<Rightarrow> nat \<Rightarrow> int \<Rightarrow> int" where
  "match_back source 0 level = -1"
| "match_back source (Suc i) level =
     (if source ! i = CHR '')'' then match_back source i (level + 1)
      else if source ! i = CHR ''('' then
        (if level - 1 = 0 then int i else match_back source i (level - 1))
      else match_back source i level)"

definition function_name_before :: "string \<Rightarrow> nat \<Rightarrow> string option" where
  "function_name_before source brace =
     (let index = skip_space_back source brace in
      if index < 0 \<or> source ! nat index \<noteq> CHR '')'' then None
      else let index = match_back source (Suc (nat index)) 0;
               window = pyslice source (max 0 (index - NAME_WINDOW)) index
           in map_option (\<lambda>m. grp window m 1) (re_search TRAILING_WORD window))"

record scan_state =
  found :: "(string \<times> nat \<times> nat) list"
  depth :: int
  open_at :: "nat option"

definition scan_token :: "string \<Rightarrow> pymatch \<Rightarrow> scan_state \<Rightarrow> scan_state" where
  "scan_token source token st =
     (let word = whole source token in
      if word = ''{'' then
        st\<lparr>open_at := (if depth st = 0 then Some (m_start token) else open_at st), depth := depth st + 1\<rparr>
      else if word = ''}'' then
        let st = st\<lparr>depth := depth st - 1\<rparr> in
        if depth st = 0 then
          (case open_at st of
             None \<Rightarrow> st
           | Some brace \<Rightarrow>
               (case function_name_before source brace of
                  None \<Rightarrow> st
                | Some name \<Rightarrow> if name = [] then st
                    else st\<lparr>found := found st @ [(name, brace + 1, m_start token)]\<rparr>))
        else st
      else st)"

definition scan_state0 :: scan_state where
  "scan_state0 = \<lparr>found = [], depth = 0, open_at = None\<rparr>"

definition rc_functions :: "string \<Rightarrow> (string \<times> nat \<times> nat) list" where
  "rc_functions source = found (fold (scan_token source) (find_matches SCAN source) scan_state0)"

section \<open>Counting atomic operations\<close>

definition kind_of :: "string \<Rightarrow> nat" where
  "kind_of function =
     (case filter (\<lambda>i. starts_with function (''blorp_'' @ KINDS ! i)) [0..<4] of
        [] \<Rightarrow> 4
      | i # _ \<Rightarrow> i)"

function match_end_from :: "string \<Rightarrow> nat \<Rightarrow> int \<Rightarrow> nat result" where
  "match_end_from source index level =
     (if index < length source then
        if source ! index = CHR ''('' then match_end_from source (Suc index) (level + 1)
        else if source ! index = CHR '')'' then
          (if level - 1 = 0 then Inr (Suc index) else match_end_from source (Suc index) (level - 1))
        else match_end_from source (Suc index) level
      else fail_rc ''unbalanced parenthesis'')"
  by pat_completeness auto
termination
  by (relation "measure (\<lambda>(source, index, level). length source - index)") auto

declare match_end_from.simps [simp del]

definition match_end :: "string \<Rightarrow> nat \<Rightarrow> nat result" where
  "match_end source open_paren = match_end_from source open_paren 0"

text \<open>The loop over the matches: the text built so far and the cursor.\<close>

fun wrap_atomics :: "string \<Rightarrow> string \<Rightarrow> (nat \<Rightarrow> nat \<Rightarrow> string) \<Rightarrow> pymatch list \<Rightarrow> string \<Rightarrow> nat \<Rightarrow> nat
    \<Rightarrow> (string \<times> nat) result" where
  "wrap_atomics body function counter [] text cursor sites = Inr (text @ drop cursor body, sites)"
| "wrap_atomics body function counter (m # ms) text cursor sites =
     (let operation = grp body m 1 in
      bindE (match_end body (m_start m + length (''atomic_fetch_'' @ operation @ ''_explicit'')))
        (\<lambda>end_at. wrap_atomics body function counter ms
           (text @ cut body cursor (m_start m)
              @ ''('' @ counter (kind_of function) (if operation = ''add'' then 0 else 1) @ '',''
              @ cut body (m_start m) end_at @ '')'')
           end_at (sites + 1)))"

definition count_atomics :: "string \<Rightarrow> string \<Rightarrow> (nat \<Rightarrow> nat \<Rightarrow> string) \<Rightarrow> (string \<times> nat) result" where
  "count_atomics body function counter = wrap_atomics body function counter (find_matches ATOMIC body) [] 0 0"

section \<open>Categories\<close>

type_synonym categories = "string list"

definition categories0 :: categories where
  "categories0 = [''untagged'']"

fun index_of :: "'a \<Rightarrow> 'a list \<Rightarrow> nat" where
  "index_of x [] = 0"
| "index_of x (y # ys) = (if y = x then 0 else Suc (index_of x ys))"

definition category_number :: "string \<Rightarrow> categories \<Rightarrow> (nat \<times> categories) result" where
  "category_number name names =
     (let names' = (if name \<in> set names then names else names @ [name]) in
      if name \<notin> set names \<and> length names' > CATEGORY_MASK + 1
      then fail_rc (''more than '' @ show_nat (CATEGORY_MASK + 1) @ '' categories'')
      else Inr (index_of name names', names'))"

section \<open>Marker regions\<close>

text \<open>\<open>parts[i]\<close>.\<close>

definition field :: "string list \<Rightarrow> nat \<Rightarrow> string result" where
  "field parts i = (if i < length parts then Inr (parts ! i) else Inl IndexError)"

text \<open>The first pass over the markers: who acquired and who created each owner.\<close>

definition note_owner :: "string list \<Rightarrow> (string, string) dict \<times> (string, string) dict
    \<Rightarrow> ((string, string) dict \<times> (string, string) dict) result" where
  "note_owner parts owners =
     (let (acquired, created) = owners in
      if take 2 parts = [''B'', ''A''] then
        bindE (field parts 2) (\<lambda>reason. bindE (field parts 5) (\<lambda>owner.
          Inr (dict_put owner reason acquired, created)))
      else bindE (field parts 0) (\<lambda>what.
        if what = ''K'' then
          bindE (field parts 2) (\<lambda>origin. bindE (field parts 1) (\<lambda>owner.
            Inr (acquired, dict_put owner origin created)))
        else Inr (acquired, created)))"

text \<open>The category that a marker starts, from the category before it.\<close>

definition marker_category :: "string \<Rightarrow> (string, string) dict \<times> (string, string) dict \<Rightarrow> string list \<Rightarrow> string
    \<Rightarrow> string result" where
  "marker_category name owners parts category =
     bindE (field parts 0) (\<lambda>what.
       if what = ''B'' then
         bindE (field parts 1) (\<lambda>which.
           if which = ''A'' then
             (case cut parts 2 5 of
                [reason, source, pair] \<Rightarrow>
                  Inr (''acquire:'' @ reason @ (if reason = ''projection'' then [] else '':'' @ source)
                       @ (if pair = ''pair'' then ''+pair'' else []))
              | _ \<Rightarrow> Inl ValueError)
           else
             (case cut parts 2 4 of
                [owner, partner] \<Rightarrow>
                  (case (case dict_get (fst owners) owner of Some o1 \<Rightarrow> Some o1 | None \<Rightarrow> dict_get (snd owners) owner) of
                     None \<Rightarrow> fail_rc (name @ '' drops owner '' @ owner @ '', which no marker created'')
                   | Some origin \<Rightarrow>
                       Inr (''drop:'' @ origin @ (if partner = ''none'' then [] else ''+pair:'' @ partner)))
              | _ \<Rightarrow> Inl ValueError))
       else if what = ''E'' then Inr ''unmarked''
       else Inr category)"

text \<open>The second pass: the pieces between the markers, each with the category in force.\<close>

fun region_pieces :: "string \<Rightarrow> string \<Rightarrow> (string, string) dict \<times> (string, string) dict \<Rightarrow> pymatch list \<Rightarrow> nat
    \<Rightarrow> string \<Rightarrow> (string \<times> string) list result" where
  "region_pieces body name owners [] cursor category = Inr [(drop cursor body, category)]"
| "region_pieces body name owners (m # ms) cursor category =
     bindE (marker_category name owners (split_ws (grp body m 1)) category) (\<lambda>category'.
       bindE (region_pieces body name owners ms (m_end m) category') (\<lambda>rest.
         Inr ((cut body cursor (m_start m), category) # rest)))"

definition region_tags :: "string \<Rightarrow> string \<Rightarrow> (string \<times> string) list result" where
  "region_tags body name =
     (let markers = find_matches MARKER body in
      bindE (foldE (\<lambda>m. note_owner (split_ws (grp body m 1))) markers ([], [])) (\<lambda>owners.
        region_pieces body name owners markers 0 ''unmarked''))"

section \<open>Tagging calls\<close>

definition tag_calls :: "string \<Rightarrow> string \<Rightarrow> string" where
  "tag_calls text tag =
     re_sub HELPER_CALL (\<lambda>s m. ''(blorp_rc_tag='' @ tag @ '','' @ grp s m 1 @ '')('') text"

definition inherit_tag :: "nat \<Rightarrow> string" where
  "inherit_tag category =
     ''(blorp_rc_tag&~'' @ show_nat CATEGORY_MASK @ ''u)|'' @ show_nat category @ ''u''"

definition tag_runtime_calls :: "nat \<Rightarrow> string \<Rightarrow> string" where
  "tag_runtime_calls function_bits text =
     (let tag = (\<lambda>s m. ''(blorp_rc_tag='' @ show_nat function_bits @ ''u,'' @ grp s m 1 @ '')('')
      in re_sub STRING_RUNTIME_CALL tag (re_sub LIST_RUNTIME_CALL tag text))"

fun tag_regions :: "nat \<Rightarrow> (string \<times> string) list \<Rightarrow> categories \<Rightarrow> (string \<times> categories) result" where
  "tag_regions function_bits [] names = Inr ([], names)"
| "tag_regions function_bits ((text, category) # rest) names =
     bindE (category_number category names) (\<lambda>(n, names').
       bindE (tag_regions function_bits rest names') (\<lambda>(out, names'').
         Inr (tag_runtime_calls function_bits (tag_calls text (show_nat (function_bits OR n) @ ''u'')) @ out,
              names'')))"

definition rewrite_tagged :: "string \<Rightarrow> string \<Rightarrow> categories \<Rightarrow> (string \<times> categories) result" where
  "rewrite_tagged name body names =
     (case re_match USER_NAME name of
        Some user \<Rightarrow>
          bindE (region_tags body name)
            (\<lambda>regions. tag_regions (push_bit CATEGORY_BITS (digits_value (grp name user 1))) regions names)
      | None \<Rightarrow>
     (case re_match LIST_RUNTIME_NAME name of
        Some m \<Rightarrow>
          bindE (category_number (''runtime_list:'' @ grp name m 1) names) (\<lambda>(category, names').
            Inr (tag_calls body (inherit_tag category), names'))
      | None \<Rightarrow>
     (case re_match HELPER_NAME name of
        Some helper \<Rightarrow>
          (case re_search ATOMIC body of
             None \<Rightarrow>
               if re_search HELPER_CALL body = None then Inr (body, names)
               else Inr (''const unsigned blorp_rc_saved=blorp_rc_tag;'' @ tag_calls body ''blorp_rc_saved'', names)
           | Some first_atomic \<Rightarrow>
               if split_char CHR ''_'' name ! 2 = ''dup'' \<or> starts_with name ''blorp_string_'' then Inr (body, names)
               else bindE (category_number (''cascade:'' @ split_char CHR ''_'' name ! 1) names) (\<lambda>(category, names').
                 Inr (take (m_start first_atomic) body
                      @ tag_calls (drop (m_start first_atomic) body) (inherit_tag category), names')))
      | None \<Rightarrow>
          if re_search HELPER_CALL body \<noteq> None then
            bindE (category_number ''runtime_other'' names) (\<lambda>(category, names').
              Inr (tag_calls body (inherit_tag category), names'))
          else Inr (body, names))))"

definition check_only_calls :: "string \<Rightarrow> unit result" where
  "check_only_calls source =
     (case find_matches BARE_HELPER source of
        [] \<Rightarrow> Inr ()
      | m # _ \<Rightarrow> fail_rc (''helper '' @ grp source m 1 @ '' is used other than by a call (offset ''
                 @ show_nat (m_start m) @ '')''))"

section \<open>The rewrite and the script\<close>

datatype rc_mode = Kinds | Tagged

definition counter_text :: "rc_mode \<Rightarrow> nat \<Rightarrow> nat \<Rightarrow> string" where
  "counter_text mode kind direction =
     (case mode of
        Tagged \<Rightarrow> ''blorp_rc_counts[blorp_rc_tag]['' @ show_nat (kind * 2 + direction) @ '']++''
      | Kinds \<Rightarrow> ''blorp_rc_kind_counts['' @ show_nat (kind * 2 + direction) @ '']++'')"

fun rewrite_bodies :: "string \<Rightarrow> rc_mode \<Rightarrow> (string \<times> nat \<times> nat) list \<Rightarrow> nat \<Rightarrow> nat \<Rightarrow> categories
    \<Rightarrow> (string \<times> nat \<times> categories) result" where
  "rewrite_bodies source mode [] cursor wrapped names = Inr (drop cursor source, wrapped, names)"
| "rewrite_bodies source mode ((name, start, end_at) # rest) cursor wrapped names =
     bindE (case mode of
              Tagged \<Rightarrow> rewrite_tagged name (cut source start end_at) names
            | Kinds \<Rightarrow> Inr (cut source start end_at, names)) (\<lambda>(body, names').
       bindE (count_atomics body name (counter_text mode)) (\<lambda>(body', sites).
         bindE (rewrite_bodies source mode rest end_at (wrapped + sites) names') (\<lambda>(out, wrapped', names'').
           Inr (cut source cursor start @ body' @ out, wrapped', names''))))"

definition rewrite :: "string \<Rightarrow> rc_mode \<Rightarrow> (string \<times> categories) result" where
  "rewrite source mode =
     bindE (rewrite_bodies source mode (rc_functions source) 0 0 categories0) (\<lambda>(out, wrapped, names).
       let atomics = length (find_matches ATOMIC source) in
       if wrapped \<noteq> atomics
       then fail_rc (''wrapped '' @ show_nat wrapped @ '' atomic operations but the source has ''
              @ show_nat atomics @ ''; one sits outside a function body'')
       else Inr (out, names))"

definition PRELUDE_COMMON :: string where
  \<open>PRELUDE_COMMON = ''#include <stdatomic.h>
#include <stdio.h>
#include <stdlib.h>
''\<close>

definition quoted_kinds :: string where
  "quoted_kinds = join '','' (map (\<lambda>k. dquote # k @ [dquote]) KINDS)"

definition tag_limit :: "nat \<Rightarrow> nat" where
  "tag_limit function_limit = push_bit CATEGORY_BITS (function_limit + 1)"

definition prelude :: "rc_mode \<Rightarrow> nat \<Rightarrow> string" where
  \<open>prelude mode function_limit =
     (let kinds = quoted_kinds; tags = tag_limit function_limit in
      case mode of
        Kinds \<Rightarrow> PRELUDE_COMMON @ ''static unsigned long blorp_rc_kind_counts[10];
static void blorp_rc_report(void){static const char *kinds[]={'' @ kinds @ ''};const char *path=getenv("BLORP_RC_OUT");
FILE *out=path?fopen(path,"w"):stderr;if(!out)return;
for(int k=0;k<5;k++)for(int d=0;d<2;d++)fprintf(out,"%s'' @ [backslash] @ ''t%s'' @ [backslash] @ ''t%lu'' @ [backslash] @ ''n",kinds[k],d?"dec":"inc",blorp_rc_kind_counts[2*k+d]);
if(path)fclose(out);}
__attribute__((constructor)) static void blorp_rc_install(void){atexit(blorp_rc_report);}
''
      | Tagged \<Rightarrow> PRELUDE_COMMON @ ''static unsigned long blorp_rc_counts['' @ show_nat tags @ ''][10];
static unsigned blorp_rc_tag;
static void blorp_rc_report(void){static const char *kinds[]={'' @ kinds @ ''};const char *path=getenv("BLORP_RC_OUT");
FILE *out=path?fopen(path,"w"):stderr;if(!out)return;
for(unsigned t=0;t<'' @ show_nat tags @ ''u;t++)for(int k=0;k<5;k++)for(int d=0;d<2;d++){unsigned long n=blorp_rc_counts[t][2*k+d];
if(n)fprintf(out,"%s'' @ [backslash] @ ''t%s'' @ [backslash] @ ''t%u'' @ [backslash] @ ''t%u'' @ [backslash] @ ''t%lu'' @ [backslash] @ ''n",kinds[k],d?"dec":"inc",t>>'' @ show_nat CATEGORY_BITS @ '',t&'' @ show_nat CATEGORY_MASK @ ''u,n);}
if(path)fclose(out);}
__attribute__((constructor)) static void blorp_rc_install(void){atexit(blorp_rc_report);}
'')\<close>

definition function_limit :: "string \<Rightarrow> nat" where
  "function_limit source =
     (case map (\<lambda>m. digits_value (grp source m 1)) (find_matches USER_FUNCTION source) of
        [] \<Rightarrow> 0
      | n # ns \<Rightarrow> fold max ns n)"

definition categories_text :: "categories \<Rightarrow> string" where
  "categories_text names = concat (map (\<lambda>(i, name). show_nat i @ [tab] @ name @ [newline]) (enumerate 0 names))"

definition rc_arguments :: "string list \<Rightarrow> (rc_mode \<times> string \<times> string \<times> string option) option" where
  "rc_arguments arguments =
     (case arguments of
        [flag, source_path, output_path] \<Rightarrow>
          if flag = ''--kinds'' then Some (Kinds, source_path, output_path, None) else None
      | [flag, source_path, output_path, categories_path] \<Rightarrow>
          if flag = ''--tagged'' then Some (Tagged, source_path, output_path, Some categories_path) else None
      | _ \<Rightarrow> None)"

definition instrumented :: "string \<Rightarrow> rc_mode \<Rightarrow> (string \<times> categories) result" where
  "instrumented source mode =
     bindE (check_only_calls source) (\<lambda>_.
       bindE (rewrite source mode) (\<lambda>(rewritten, names).
         Inr (prelude mode (function_limit source) @ rewritten, names)))"

definition mode_name :: "rc_mode \<Rightarrow> string" where
  "mode_name mode = (case mode of Kinds \<Rightarrow> ''kinds'' | Tagged \<Rightarrow> ''tagged'')"

text \<open>The script on its arguments and the files: the files afterwards and the summary line or the failure.\<close>

definition rc_main :: "string list \<Rightarrow> (string \<rightharpoonup> string) \<Rightarrow> (string \<rightharpoonup> string) \<times> string result" where
  "rc_main arguments fs =
     (case rc_arguments arguments of
        None \<Rightarrow> (fs, Inl (SystemExit DOC_RC))
      | Some (mode, source_path, output_path, categories_path) \<Rightarrow>
          (case fs source_path of
             None \<Rightarrow> (fs, Inl OSError)
           | Some raw \<Rightarrow>
               (let source = universal_newlines raw in
                case instrumented source mode of
                  Inl e \<Rightarrow> (fs, Inl e)
                | Inr (text, names) \<Rightarrow>
                    (let fs1 = fs(output_path \<mapsto> text);
                         fs2 = (case categories_path of None \<Rightarrow> fs1 | Some p \<Rightarrow> if p = [] then fs1 else fs1(p \<mapsto> categories_text names))
                     in (fs2, Inr (''instrumented '' @ mode_name mode @ '': ''
                          @ show_nat (length (find_matches ATOMIC source)) @ '' atomic operations, ''
                          @ show_nat (length names) @ '' categories''))))))"

end
