(* ===== verification/Instrument_RC_Props.thy ===== *)
theory Instrument_RC_Props
  imports Instrument_RC "HOL-Library.Word"
begin

unbundle bit_operations_syntax

text \<open>
  What \<^verbatim>\<open>instrument_rc.py\<close> guarantees: balanced parentheses, function bodies that do not overlap,
  text outside bodies left alone, every atomic operation wrapped, a category numbering that is
  injective, stable and within seven bits, tags that stay inside the counter array, and marker
  regions that lose nothing but the markers.
\<close>

section \<open>Balanced parentheses\<close>

definition paren :: "char \<Rightarrow> int" where
  "paren c = (if c = CHR ''('' then 1 else if c = CHR '')'' then -1 else 0)"

definition level_at :: "string \<Rightarrow> nat \<Rightarrow> nat \<Rightarrow> int" where
  "level_at s p k = sum_list (map paren (cut s p k))"

lemma level_at_Suc: "p \<le> k \<Longrightarrow> k < length s \<Longrightarrow> level_at s p (Suc k) = level_at s p k + paren (s ! k)"
  using cut_split [of p k "Suc k" s, symmetric] by (simp add: level_at_def cut_Suc)

text \<open>\<open>e\<close> is where the parenthesis opened at \<open>p\<close> closes.\<close>

definition closes :: "string \<Rightarrow> nat \<Rightarrow> nat \<Rightarrow> bool" where
  "closes s p e \<longleftrightarrow> p < e \<and> e \<le> length s \<and> level_at s p e = 0 \<and> (\<forall>k. p < k \<and> k < e \<longrightarrow> 0 < level_at s p k)"

lemma closes_unique: "closes s p e \<Longrightarrow> closes s p e' \<Longrightarrow> e = e'"
  unfolding closes_def by (metis less_irrefl linorder_neqE_nat)

lemma match_end_from_spec:
  assumes "p < i" and "i \<le> length s" and "0 < level_at s p i" and "d = level_at s p i"
    and "\<And>k. p < k \<Longrightarrow> k \<le> i \<Longrightarrow> 0 < level_at s p k"
  shows "match_end_from s i d = Inr e \<longleftrightarrow> closes s p e"
  using assms
proof (induction s i d rule: match_end_from.induct)
  case (1 s i d)
  show ?case
  proof (cases "i < length s")
    case False
    with "1.prems" have i: "i = length s" by simp
    have "\<not> closes s p e"
    proof
      assume "closes s p e"
      then have "e \<le> i" "p < e" "level_at s p e = 0" using i by (auto simp: closes_def)
      with "1.prems"(5) [of e] show False by simp
    qed
    with False show ?thesis by (simp add: match_end_from.simps [of s i] fail_rc_def)
  next
    case True
    have step: "level_at s p (Suc i) = d + paren (s ! i)"
      using level_at_Suc [of p i s] True "1.prems" by simp
    have dpos: "0 < d" using "1.prems"(3,4) by simp
    have pos: "0 < level_at s p k" if "p < k" "k \<le> Suc i" "0 < level_at s p (Suc i)" for k
      using "1.prems"(5) that by (metis le_Suc_eq)
    consider (lpar) "s ! i = CHR ''(''" | (rpar) "s ! i = CHR '')''" | (other) "s ! i \<noteq> CHR ''(''" "s ! i \<noteq> CHR '')''"
      by blast
    then show ?thesis
    proof cases
      case lpar
      then have "match_end_from s i d = match_end_from s (Suc i) (d + 1)"
        using True by (subst match_end_from.simps) simp
      also have "\<dots> = Inr e \<longleftrightarrow> closes s p e"
        by (rule "1.IH"(1)) (use True lpar "1.prems"(1) step pos dpos in \<open>auto simp: paren_def\<close>)
      finally show ?thesis .
    next
      case rpar
      show ?thesis
      proof (cases "d - 1 = 0")
        case True
        have "closes s p (Suc i)"
          using True \<open>i < length s\<close> "1.prems" step rpar by (auto simp: closes_def paren_def less_Suc_eq_le)
        then have "closes s p e \<longleftrightarrow> e = Suc i" using closes_unique by blast
        with True \<open>i < length s\<close> rpar show ?thesis
          by (subst match_end_from.simps) auto
      next
        case False
        with rpar have "match_end_from s i d = match_end_from s (Suc i) (d - 1)"
          using \<open>i < length s\<close> by (subst match_end_from.simps) simp
        also have "\<dots> = Inr e \<longleftrightarrow> closes s p e"
          by (rule "1.IH"(2))
            (use False \<open>i < length s\<close> rpar "1.prems"(1) step pos dpos in \<open>auto simp: paren_def\<close>)
        finally show ?thesis .
      qed
    next
      case other
      then have "match_end_from s i d = match_end_from s (Suc i) d"
        using True by (subst match_end_from.simps) simp
      also have "\<dots> = Inr e \<longleftrightarrow> closes s p e"
        by (rule "1.IH"(3)) (use True other "1.prems"(1) step pos dpos in \<open>auto simp: paren_def\<close>)
      finally show ?thesis .
    qed
  qed
qed

lemma match_end_closes:
  assumes "p < length s" and "s ! p = CHR ''(''"
  shows "match_end s p = Inr e \<longleftrightarrow> closes s p e"
proof -
  have lvl: "level_at s p (Suc p) = 1"
    using assms by (simp add: level_at_def cut_Suc paren_def)
  have "match_end s p = match_end_from s (Suc p) 1"
    using assms by (simp add: match_end_def match_end_from.simps [of s p])
  also have "\<dots> = Inr e \<longleftrightarrow> closes s p e"
    by (rule match_end_from_spec) (use assms lvl in \<open>auto simp: le_Suc_eq less_Suc_eq_le\<close>)
  finally show ?thesis .
qed

section \<open>Function bodies\<close>

lemma ordered_raise: "ordered cur n xs \<Longrightarrow> n \<le> n' \<Longrightarrow> ordered cur n' xs"
  by (induction cur n xs rule: ordered.induct) auto

lemma ordered_snoc: "ordered cur n xs \<Longrightarrow> n \<le> a \<Longrightarrow> a \<le> b \<Longrightarrow> b \<le> n' \<Longrightarrow> ordered cur n' (xs @ [(a, b)])"
  by (induction cur n xs rule: ordered.induct) auto

abbreviation body_spans :: "(string \<times> nat \<times> nat) list \<Rightarrow> (nat \<times> nat) list" where
  "body_spans fns \<equiv> map (\<lambda>(name, a, b). (a, b)) fns"

text \<open>
  The scan before position \<open>pos\<close>: bodies found so far are ordered, and inside braces the outermost open
  brace lies behind all of them.
\<close>

definition scan_inv :: "nat \<Rightarrow> scan_state \<Rightarrow> bool" where
  "scan_inv pos st \<longleftrightarrow> ordered 0 pos (body_spans (found st))
     \<and> (0 < depth st \<longrightarrow> (\<exists>b. open_at st = Some b \<and> b < pos \<and> ordered 0 b (body_spans (found st))))"

lemma scan_inv_raise: "scan_inv pos st \<Longrightarrow> pos \<le> pos' \<Longrightarrow> scan_inv pos' st"
  by (force simp: scan_inv_def intro: ordered_raise)

lemma scan_token_inv:
  assumes inv: "scan_inv pos st" and pos: "pos \<le> m_start m" "m_start m < m_end m"
  shows "scan_inv (m_end m) (scan_token source m st)"
proof -
  from inv pos have found: "ordered 0 (m_start m) (body_spans (found st))" "ordered 0 (m_end m) (body_spans (found st))"
    by (auto simp: scan_inv_def intro: ordered_raise)
  consider (left) "whole source m = ''{''" | (right) "whole source m = ''}''"
    | (other) "whole source m \<noteq> ''{''" "whole source m \<noteq> ''}''" by blast
  then show ?thesis
  proof cases
    case left
    with inv pos found show ?thesis
      by (force simp: scan_token_def scan_inv_def)
  next
    case right
    show ?thesis
    proof (cases "depth st - 1 = 0")
      case True
      with inv obtain b where b: "open_at st = Some b" "b < pos" "ordered 0 b (body_spans (found st))"
        by (auto simp: scan_inv_def)
      have "ordered 0 (m_end m) (body_spans (found st) @ [(b + 1, m_start m)])"
        by (rule ordered_snoc [OF b(3)]) (use b(2) pos in auto)
      with right True b found(2) show ?thesis
        by (auto simp: scan_token_def scan_inv_def Let_def split: option.splits)
    next
      case False
      then have "scan_token source m st = st\<lparr>depth := depth st - 1\<rparr>"
        using right by (simp add: scan_token_def Let_def)
      with inv pos found show ?thesis by (force simp: scan_inv_def)
    qed
  next
    case other
    then have "scan_token source m st = st" by (simp add: scan_token_def)
    with inv pos show ?thesis by (auto intro: scan_inv_raise)
  qed
qed

lemma SCAN_min_len: "0 < min_len SCAN"
  by (simp add: SCAN_def)

lemma fold_scan_inv:
  assumes "scan_inv pos st" and "ordered pos n (map (\<lambda>m. (m_start m, m_end m)) ms)"
    and "\<And>m. m \<in> set ms \<Longrightarrow> m_start m < m_end m"
  shows "scan_inv n (fold (scan_token source) ms st)"
  using assms
proof (induction ms arbitrary: pos st)
  case Nil
  then show ?case by (auto intro: scan_inv_raise)
next
  case (Cons m ms)
  then have "scan_inv (m_end m) (scan_token source m st)" by (intro scan_token_inv) auto
  with Cons show ?case by simp
qed

lemma functions_ordered: "ordered 0 (length source) (body_spans (rc_functions source))"
proof -
  have "scan_inv (length source) (fold (scan_token source) (find_matches SCAN source) scan_state0)"
  proof (rule fold_scan_inv [where pos = 0])
    show "scan_inv 0 scan_state0" by (simp add: scan_inv_def scan_state0_def)
    show "ordered 0 (length source) (map (\<lambda>m. (m_start m, m_end m)) (find_matches SCAN source))"
      by (rule re_scan.scan_ordered)
    show "m_start m < m_end m" if "m \<in> set (find_matches SCAN source)" for m
      using finditer_in [OF that] SCAN_min_len by simp
  qed
  then show ?thesis by (simp add: scan_inv_def rc_functions_def)
qed

interpretation rc_bodies: scanner rc_functions "fst \<circ> snd" "snd \<circ> snd"
proof unfold_locales
  fix s
  have "(\<lambda>m. ((fst \<circ> snd) m, (snd \<circ> snd) m)) = (\<lambda>(name :: string, a :: nat, b :: nat). (a, b))"
    by (rule ext) (simp add: case_prod_beta)
  with functions_ordered [of s] show
    "ordered 0 (length s) (map (\<lambda>m. ((fst \<circ> snd) m, (snd \<circ> snd) m)) (rc_functions s))"
    by (simp only:)
qed

section \<open>What the rewrite leaves alone\<close>

lemma rewrite_bodies_weave:
  "rewrite_bodies source mode fns cursor wrapped names = Inr (out, wrapped', names') \<Longrightarrow>
     \<exists>bodies. length bodies = length fns
       \<and> out = weave source cursor (map2 (\<lambda>(name, a, b) w. (a, b, w)) fns bodies)"
proof (induction source mode fns cursor wrapped names arbitrary: out wrapped' names' rule: rewrite_bodies.induct)
  case (1 source mode cursor wrapped names)
  then show ?case by simp
next
  case (2 source mode name a b fns cursor wrapped names)
  from "2.prems" obtain body names1 body' sites out'
    where 1: "(case mode of Tagged \<Rightarrow> rewrite_tagged name (cut source a b) names
                | Kinds \<Rightarrow> Inr (cut source a b, names)) = Inr (body, names1)"
      and 2: "count_atomics body name (counter_text mode) = Inr (body', sites)"
      and 3: "rewrite_bodies source mode fns b (wrapped + sites) names1 = Inr (out', wrapped', names')"
      and out: "out = cut source cursor a @ body' @ out'"
    by (auto simp: bindE_Inr_iff)
  from "2.IH" [OF 3] obtain bodies where
    "length bodies = length fns" "out' = weave source b (map2 (\<lambda>(name, a, b) w. (a, b, w)) fns bodies)" by blast
  with out show ?case by (intro exI [of _ "body' # bodies"]) simp
qed

section \<open>Atomic operations\<close>

text \<open>Where the argument list of a matched atomic operation opens.\<close>

definition args_at :: "string \<Rightarrow> pymatch \<Rightarrow> nat" where
  "args_at body m = m_start m + length (''atomic_fetch_'' @ grp body m 1 @ ''_explicit'')"

definition op_end :: "string \<Rightarrow> pymatch \<Rightarrow> nat" where
  "op_end body m = (case match_end body (args_at body m) of Inl _ \<Rightarrow> 0 | Inr e \<Rightarrow> e)"

definition wrapped_op :: "string \<Rightarrow> string \<Rightarrow> (nat \<Rightarrow> nat \<Rightarrow> string) \<Rightarrow> pymatch \<Rightarrow> string" where
  "wrapped_op body function counter m =
     ''('' @ counter (kind_of function) (if grp body m 1 = ''add'' then 0 else 1) @ '',''
       @ cut body (m_start m) (op_end body m) @ '')''"

lemma wrap_atomics_step:
  "wrap_atomics body function counter (m # ms) acc cursor sites =
     bindE (match_end body (args_at body m)) (\<lambda>e. wrap_atomics body function counter ms
       (acc @ cut body cursor (m_start m) @ wrapped_op body function counter m) e (sites + 1))"
  by (cases "match_end body (args_at body m)")
    (simp_all only: wrap_atomics.simps Let_def args_at_def op_end_def wrapped_op_def bindE_simps sum.simps
      append_assoc)

lemma wrap_atomics_spec:
  "wrap_atomics body function counter ms acc cursor sites = Inr (out, n) \<longleftrightarrow>
     (\<forall>m \<in> set ms. \<exists>e. match_end body (args_at body m) = Inr e) \<and> n = sites + length ms
     \<and> out = acc @ weave body cursor (map (\<lambda>m. (m_start m, op_end body m, wrapped_op body function counter m)) ms)"
proof (induction ms arbitrary: acc cursor sites)
  case (Cons m ms)
  show ?case
  proof (cases "match_end body (args_at body m)")
    case (Inl e)
    then show ?thesis unfolding wrap_atomics_step by simp
  next
    case (Inr e)
    then have "op_end body m = e" by (simp add: op_end_def)
    with Inr show ?thesis unfolding wrap_atomics_step by (simp add: Cons.IH)
  qed
qed auto

lemma count_atomics_spec:
  "count_atomics body function counter = Inr (out, n) \<longleftrightarrow>
     (\<forall>m \<in> set (find_matches ATOMIC body). \<exists>e. match_end body (args_at body m) = Inr e)
     \<and> n = length (find_matches ATOMIC body)
     \<and> out = weave body 0 (map (\<lambda>m. (m_start m, op_end body m, wrapped_op body function counter m))
                             (find_matches ATOMIC body))"
  by (simp add: count_atomics_def wrap_atomics_spec)

lemma atomic_match:
  assumes "match_at ATOMIC s i = Some m"
  shows "m_start m = i \<and> starts_at s (''atomic_fetch_'' @ grp s m 1 @ ''_explicit('') i
    \<and> (grp s m 1 = ''add'' \<or> grp s m 1 = ''sub'')"
proof -
  obtain j c where mem: "(j, c) \<in> set (matches ATOMIC s i [])" and m: "m = \<lparr>m_start = i, m_end = j, m_caps = c\<rparr>"
    using assms by (fastforce simp: match_at_def split: list.splits)
  obtain op k where a: "starts_at s ''atomic_fetch_'' i" "starts_at s op (i + 13)" "op = ''add'' \<or> op = ''sub''"
      "starts_at s ''_explicit('' (i + 16)"
    and k: "(k, c) \<in> set (iter True (length s - (i + 26)) (matches space_re s) (i + 26) [(1, i + 13, i + 16)])"
    using mem by (auto simp: ATOMIC_def matches_lit eval_nat_numeral split: if_splits)
  have c: "c = [(1, i + 13, i + 16)]" using iter_caps [OF _ k] by (auto split: if_splits)
  have "grp s m 1 = op" using a(2,3) m c by (auto simp: grp_def group_def starts_at_cut add.commute [of 16])
  moreover have "starts_at s (''atomic_fetch_'' @ op @ ''_explicit('') i"
    using a by (auto simp: starts_at_append [of _ "''atomic_fetch_''"] starts_at_append [of _ "''add''"]
      starts_at_append [of _ "''sub''"] eval_nat_numeral simp del: append_Cons append_Nil)
  ultimately show ?thesis using a(3) m by simp
qed

lemma atomic_args:
  assumes "m \<in> set (find_matches ATOMIC body)"
  shows "args_at body m < length body" and "body ! args_at body m = CHR ''(''" and "m_start m < args_at body m"
    and "grp body m 1 = ''add'' \<or> grp body m 1 = ''sub''"
proof -
  let ?w = "''atomic_fetch_'' @ grp body m 1 @ ''_explicit''"
  have "match_at ATOMIC body (m_start m) = Some m" using finditer_in [OF assms] by simp
  note a = atomic_match [OF this]
  then have "starts_at body (?w @ ''('') (m_start m)" by simp
  then have "starts_at body ''('' (args_at body m)" unfolding starts_at_append by (simp add: args_at_def)
  from starts_at_nth [OF this, of 0] show "args_at body m < length body" "body ! args_at body m = CHR ''(''" by simp_all
  show "m_start m < args_at body m" by (simp add: args_at_def)
  show "grp body m 1 = ''add'' \<or> grp body m 1 = ''sub''" using a by simp
qed

lemma count_atomics_succeeds_iff:
  "(\<exists>r. count_atomics body function counter = Inr r) \<longleftrightarrow>
     (\<forall>m \<in> set (find_matches ATOMIC body). \<exists>e. closes body (args_at body m) e)"
  using atomic_args match_end_closes by (auto simp: count_atomics_spec)

lemma op_end_closes:
  assumes "count_atomics body function counter = Inr r" and "m \<in> set (find_matches ATOMIC body)"
  shows "closes body (args_at body m) (op_end body m)"
proof -
  obtain e where e: "match_end body (args_at body m) = Inr e"
    using assms by (cases r) (auto simp: count_atomics_spec)
  then have "closes body (args_at body m) e" using match_end_closes [OF atomic_args(1,2) [OF assms(2)]] by simp
  with e show ?thesis by (simp add: op_end_def)
qed

text \<open>No operation sits inside the argument list of another.\<close>

definition flat :: "string \<Rightarrow> bool" where
  "flat body \<longleftrightarrow> ordered 0 (length body) (map (\<lambda>m. (m_start m, op_end body m)) (find_matches ATOMIC body))"

lemma count_atomics_inserts:
  assumes "count_atomics body function counter = Inr (out, n)" and "flat body"
  shows "subseq body out"
proof -
  let ?ops = "map (\<lambda>m. (m_start m, op_end body m, wrapped_op body function counter m)) (find_matches ATOMIC body)"
  have "subseq (drop 0 body) (weave body 0 ?ops)"
  proof (rule weave_subseq)
    show "ordered 0 (length body) (map (\<lambda>(a, b, w). (a, b)) ?ops)"
      using assms(2) by (simp add: flat_def o_def)
    show "subseq (cut body a b) w" if "(a, b, w) \<in> set ?ops" for a b w
    proof -
      from that obtain m where w: "w = wrapped_op body function counter m" and ab: "a = m_start m" "b = op_end body m"
        by auto
      have "subseq (cut body a b)
        ((''('' @ counter (kind_of function) (if grp body m 1 = ''add'' then 0 else 1) @ '','') @ cut body a b @ '')'')"
        by (rule subseq_middle)
      then show ?thesis by (simp add: w ab wrapped_op_def)
    qed
  qed
  with assms(1) show ?thesis by (simp add: count_atomics_spec)
qed

lemma filter_upt_hd: "filter P [0..<n] = i # is \<Longrightarrow> i < n"
proof -
  assume h: "filter P [0..<n] = i # is"
  have "i \<in> set (filter P [0..<n])" unfolding h by simp
  then show "i < n" by simp
qed

text \<open>The number of a helper's kind, by the name it starts with: four families, and 4 for everything else.\<close>

definition of_kind :: "string \<Rightarrow> nat \<Rightarrow> bool" where
  "of_kind function k \<longleftrightarrow>
     (k = 0 \<longleftrightarrow> starts_with function ''blorp_record'') \<and> (k = 1 \<longleftrightarrow> starts_with function ''blorp_list'')
     \<and> (k = 2 \<longleftrightarrow> starts_with function ''blorp_union'') \<and> (k = 3 \<longleftrightarrow> starts_with function ''blorp_string'') \<and> k < 5"

lemma starts_with_nth: "starts_with s w \<Longrightarrow> i < length w \<Longrightarrow> s ! i = w ! i"
  by (metis nth_take)

lemma kind_prefixes_disjoint:
  assumes "6 < length v" and "6 < length w" and "v ! 6 \<noteq> w ! 6"
  shows "\<not> (starts_with function v \<and> starts_with function w)"
  using starts_with_nth [OF _ assms(1)] starts_with_nth [OF _ assms(2)] assms(3) by metis

lemma kind_of_iff: "kind_of function = k \<longleftrightarrow> of_kind function k"
proof -
  have upt: "[0..<4] = [0, 1, 2, 3 :: nat]" by (simp add: upt_rec)
  have "\<not> (starts_with function ''blorp_record'' \<and> starts_with function ''blorp_list'')"
    "\<not> (starts_with function ''blorp_record'' \<and> starts_with function ''blorp_union'')"
    "\<not> (starts_with function ''blorp_record'' \<and> starts_with function ''blorp_string'')"
    "\<not> (starts_with function ''blorp_list'' \<and> starts_with function ''blorp_union'')"
    "\<not> (starts_with function ''blorp_list'' \<and> starts_with function ''blorp_string'')"
    "\<not> (starts_with function ''blorp_union'' \<and> starts_with function ''blorp_string'')"
    by (rule kind_prefixes_disjoint; simp)+
  then have "of_kind function (kind_of function)"
    by (auto simp: of_kind_def kind_of_def KINDS_def upt)
  moreover have "k = k'" if "of_kind function k" "of_kind function k'" for k k'
  proof -
    have "(k = 0) = (k' = 0)" "(k = 1) = (k' = 1)" "(k = 2) = (k' = 2)" "(k = 3) = (k' = 3)" "k < 5" "k' < 5"
      using that unfolding of_kind_def by simp_all
    then show ?thesis by presburger
  qed
  ultimately show ?thesis by blast
qed

text \<open>The end of every operation is where its argument list closes, and its counter that of the function's kind.\<close>

definition wraps :: "string \<Rightarrow> (nat \<Rightarrow> nat \<Rightarrow> string) \<Rightarrow> nat \<Rightarrow> pymatch \<Rightarrow> nat \<Rightarrow> nat \<times> nat \<times> string" where
  "wraps body counter k m e =
     (m_start m, e, ''('' @ counter k (if grp body m 1 = ''add'' then 0 else 1) @ '','' @ cut body (m_start m) e @ '')'')"

lemma match_end_ends:
  assumes "set ms \<subseteq> set (find_matches ATOMIC body)"
  shows "list_all2 (\<lambda>m e. closes body (args_at body m) e) ms ends \<longleftrightarrow>
    (\<forall>m \<in> set ms. \<exists>e. match_end body (args_at body m) = Inr e) \<and> ends = map (op_end body) ms"
  using assms
proof (induction ms arbitrary: ends)
  case (Cons m ms)
  then have m: "m \<in> set (find_matches ATOMIC body)" and ms: "set ms \<subseteq> set (find_matches ATOMIC body)" by simp_all
  have "closes body (args_at body m) e \<longleftrightarrow> (\<exists>e. match_end body (args_at body m) = Inr e) \<and> e = op_end body m" for e
    unfolding match_end_closes [OF atomic_args(1,2) [OF m], symmetric]
    by (cases "match_end body (args_at body m)") (auto simp: op_end_def)
  then show ?case using Cons.IH [OF ms] by (cases ends) auto
qed simp

lemma count_atomics_ends:
  "count_atomics body function counter = Inr (out, n) \<longleftrightarrow>
     (\<exists>ends k. list_all2 (\<lambda>m e. closes body (args_at body m) e) (find_matches ATOMIC body) ends \<and> of_kind function k
        \<and> n = length (find_matches ATOMIC body) \<and> out = weave body 0 (map2 (wraps body counter k) (find_matches ATOMIC body) ends))"
proof -
  have "map2 (wraps body counter (kind_of function)) ms (map (op_end body) ms)
      = map (\<lambda>m. (m_start m, op_end body m, wrapped_op body function counter m)) ms" for ms
    by (induction ms) (simp_all add: wraps_def wrapped_op_def)
  then show ?thesis
    unfolding match_end_ends [OF subset_refl] kind_of_iff [symmetric] count_atomics_spec by auto
qed

section \<open>The category registry\<close>

text \<open>
  A registry hands out numbers for names: the number of a name is its place in the list, known names
  keep their number, and the list never outgrows its limit.
\<close>

locale registry =
  fixes number :: "'a \<Rightarrow> 'a list \<Rightarrow> (nat \<times> 'a list) result"
    and limit :: nat
  assumes number_place: "number x ns = Inr (n, ns') \<Longrightarrow> n < length ns' \<and> ns' ! n = x"
    and number_stable: "number x ns = Inr (n, ns') \<Longrightarrow> prefix ns ns'"
    and number_distinct: "number x ns = Inr (n, ns') \<Longrightarrow> distinct ns \<Longrightarrow> distinct ns'"
    and number_limit: "number x ns = Inr (n, ns') \<Longrightarrow> length ns \<le> limit \<Longrightarrow> length ns' \<le> limit"
    and number_succeeds: "x \<in> set ns \<or> length ns < limit \<Longrightarrow> \<exists>r. number x ns = Inr r"
begin

definition good :: "'a list \<Rightarrow> 'a list \<Rightarrow> bool" where
  "good ns ns' \<longleftrightarrow> prefix ns ns' \<and> (distinct ns \<longrightarrow> distinct ns') \<and> (length ns \<le> limit \<longrightarrow> length ns' \<le> limit)"

lemma good_refl: "good ns ns"
  by (simp add: good_def)

lemma good_trans: "good a b \<Longrightarrow> good b c \<Longrightarrow> good a c"
  by (auto simp: good_def)

lemma number_good: "number x ns = Inr (n, ns') \<Longrightarrow> good ns ns'"
  using number_stable number_distinct number_limit by (simp add: good_def)

text \<open>A number handed out once denotes the same name in every later state.\<close>

lemma number_kept: "number x ns = Inr (n, ns') \<Longrightarrow> good ns' ns'' \<Longrightarrow> n < length ns'' \<and> ns'' ! n = x"
  using number_place [of x ns n ns'] by (auto simp: good_def prefix_def nth_append)

lemma number_below: "number x ns = Inr (n, ns') \<Longrightarrow> length ns \<le> limit \<Longrightarrow> n < limit"
  using number_place number_limit by (metis less_le_trans)

end

lemma index_of_in: "x \<in> set xs \<Longrightarrow> index_of x xs < length xs \<and> xs ! index_of x xs = x"
  by (induction xs) auto

lemma index_of_snoc: "x \<notin> set xs \<Longrightarrow> index_of x (xs @ [x]) = length xs"
  by (induction xs) auto

lemma category_mask: "CATEGORY_MASK = 127"
  by (simp add: CATEGORY_MASK_def CATEGORY_BITS_def push_bit_eq_mult)

interpretation cats: registry category_number 128
proof unfold_locales
  fix x ns n ns'
  assume r: "category_number x ns = Inr (n, ns')"
  then show "n < length ns' \<and> ns' ! n = x" "prefix ns ns'"
    using index_of_in [of x ns] index_of_snoc [of x ns]
    by (auto simp: category_number_def category_mask fail_rc_def Let_def split: if_splits)
  from r show "distinct ns \<Longrightarrow> distinct ns'" "length ns \<le> 128 \<Longrightarrow> length ns' \<le> 128"
    by (auto simp: category_number_def category_mask fail_rc_def Let_def split: if_splits)
next
  fix x :: string and ns :: categories
  assume "x \<in> set ns \<or> length ns < 128"
  then show "\<exists>r. category_number x ns = Inr r"
    by (auto simp: category_number_def category_mask Let_def)
qed

section \<open>Tags\<close>

lemma pack_or: "n < 128 \<Longrightarrow> push_bit CATEGORY_BITS f OR n = f * 128 + n" for f n :: nat
proof -
  assume n: "n < 128"
  have "push_bit 7 f OR n = push_bit 7 f + n"
  proof (rule disjunctive_add_eq_or [symmetric])
    have "bit n k \<Longrightarrow> k < 7" for k
    proof (rule ccontr)
      assume k: "bit n k" "\<not> k < 7"
      then have "(2 :: nat) ^ 7 \<le> 2 ^ k" by (intro power_increasing) auto
      moreover have "2 ^ k \<le> n" using k(1) by (metis bit_iff_odd div_less even_zero not_le)
      ultimately show False using n by simp
    qed
    then show "push_bit 7 f AND n = 0"
      by (fastforce simp: bit_eq_iff bit_and_iff bit_push_bit_iff)
  qed
  then show ?thesis by (simp add: CATEGORY_BITS_def push_bit_eq_mult)
qed

lemma mask_mod: "t AND CATEGORY_MASK = t mod 128" for t :: nat
proof -
  have "CATEGORY_MASK = mask 7" by (simp add: category_mask mask_eq_exp_minus_1)
  then have "t AND CATEGORY_MASK = take_bit 7 t" by (simp add: take_bit_eq_mask)
  then show ?thesis by (simp add: take_bit_eq_mod)
qed

text \<open>The report reads the function number and the category back from a tag.\<close>

lemma unpack:
  assumes "n < 128"
  shows "drop_bit CATEGORY_BITS (push_bit CATEGORY_BITS f OR n) = f"
    and "(push_bit CATEGORY_BITS f OR n) AND CATEGORY_MASK = n"
    and "f \<le> most \<Longrightarrow> push_bit CATEGORY_BITS f OR n < tag_limit most"
  using assms by (simp_all add: pack_or mask_mod, simp_all add: CATEGORY_BITS_def drop_bit_eq_div tag_limit_def push_bit_eq_mult)

definition tagged_piece :: "nat \<Rightarrow> string \<times> string \<Rightarrow> nat \<Rightarrow> string" where
  "tagged_piece f piece tag =
     tag_runtime_calls (push_bit CATEGORY_BITS f) (tag_calls (fst piece) (show_nat tag @ ''u''))"

lemma tag_regions_spec:
  "tag_regions (push_bit CATEGORY_BITS f) regions names = Inr (out, names') \<Longrightarrow> length names \<le> 128 \<Longrightarrow>
     cats.good names names' \<and> (\<exists>tags. length tags = length regions
       \<and> out = concat (map2 (tagged_piece f) regions tags)
       \<and> (\<forall>i < length regions. tags ! i < tag_limit f \<and> drop_bit CATEGORY_BITS (tags ! i) = f
            \<and> (tags ! i) AND CATEGORY_MASK < length names' \<and> names' ! ((tags ! i) AND CATEGORY_MASK) = snd (regions ! i)))"
proof (induction regions arbitrary: names out)
  case Nil
  then show ?case by (auto simp: cats.good_refl)
next
  case (Cons piece regions)
  obtain code category where piece: "piece = (code, category)" by force
  with Cons.prems obtain n names1 out1 where
      n: "category_number category names = Inr (n, names1)"
      and rest: "tag_regions (push_bit CATEGORY_BITS f) regions names1 = Inr (out1, names')"
      and out: "out = tagged_piece f piece (push_bit CATEGORY_BITS f OR n) @ out1"
    by (auto simp: bindE_Inr_iff tagged_piece_def)
  have len: "length names1 \<le> 128" using cats.number_limit [OF n] Cons.prems(2) by simp
  have n128: "n < 128" using cats.number_below [OF n] Cons.prems(2) by simp
  from Cons.IH [OF rest len] obtain tags where good: "cats.good names1 names'" and tags: "length tags = length regions"
      "out1 = concat (map2 (tagged_piece f) regions tags)"
      "\<forall>i < length regions. tags ! i < tag_limit f \<and> drop_bit CATEGORY_BITS (tags ! i) = f
         \<and> (tags ! i) AND CATEGORY_MASK < length names' \<and> names' ! ((tags ! i) AND CATEGORY_MASK) = snd (regions ! i)"
    by blast
  note kept = cats.number_kept [OF n good]
  show ?case
  proof (intro conjI exI [of _ "(push_bit CATEGORY_BITS f OR n) # tags"] allI impI)
    show "cats.good names names'" using cats.good_trans [OF cats.number_good [OF n] good] .
  next
    fix i
    assume "i < length (piece # regions)"
    then show "((push_bit CATEGORY_BITS f OR n) # tags) ! i < tag_limit f"
      and "drop_bit CATEGORY_BITS (((push_bit CATEGORY_BITS f OR n) # tags) ! i) = f"
      and "(((push_bit CATEGORY_BITS f OR n) # tags) ! i) AND CATEGORY_MASK < length names'"
      and "names' ! ((((push_bit CATEGORY_BITS f OR n) # tags) ! i) AND CATEGORY_MASK) = snd ((piece # regions) ! i)"
      using tags(3) unpack [OF n128] kept piece by (auto simp: nth_Cons split: nat.splits)
  qed (use tags out in auto)
qed

lemma rewrite_tagged_good:
  assumes "rewrite_tagged name body names = Inr (out, names')" and "length names \<le> 128"
  shows "cats.good names names'"
  using assms tag_regions_spec [of _ _ names out names'] cats.number_good [of _ names _ names']
  by (auto simp: rewrite_tagged_def bindE_Inr_iff cats.good_refl split: option.splits if_splits)

lemma rewrite_bodies_good:
  "rewrite_bodies source mode fns cursor wrapped names = Inr (out, wrapped', names') \<Longrightarrow> length names \<le> 128 \<Longrightarrow>
     cats.good names names'"
proof (induction source mode fns cursor wrapped names arbitrary: out wrapped' names' rule: rewrite_bodies.induct)
  case (1 source mode cursor wrapped names)
  then show ?case by (simp add: cats.good_refl)
next
  case (2 source mode name a b fns cursor wrapped names)
  from "2.prems"(1) obtain body names1 body' sites out'
    where 1: "(case mode of Tagged \<Rightarrow> rewrite_tagged name (cut source a b) names
                | Kinds \<Rightarrow> Inr (cut source a b, names)) = Inr (body, names1)"
      and 3: "rewrite_bodies source mode fns b (wrapped + sites) names1 = Inr (out', wrapped', names')"
    by (auto simp: bindE_Inr_iff)
  have good: "cats.good names names1"
    using 1 rewrite_tagged_good [of name _ names body names1] "2.prems"(2)
    by (auto simp: cats.good_refl split: rc_mode.splits)
  then have "length names1 \<le> 128" using "2.prems"(2) by (simp add: cats.good_def)
  from "2.IH" [OF 3 this] good show ?case by (rule cats.good_trans [rotated])
qed

lemma rewrite_categories:
  assumes "rewrite source mode = Inr (out, names)"
  shows "distinct names" and "length names \<le> 128" and "names ! 0 = ''untagged''" and "names \<noteq> []"
proof -
  obtain w where "rewrite_bodies source mode (rc_functions source) 0 0 categories0 = Inr (out, w, names)"
    using assms by (auto simp: rewrite_def bindE_Inr_iff Let_def fail_rc_def split: if_splits)
  then have "cats.good categories0 names" by (rule rewrite_bodies_good) (simp add: categories0_def)
  then show "distinct names" "length names \<le> 128" "names ! 0 = ''untagged''" "names \<noteq> []"
    by (auto simp: cats.good_def categories0_def prefix_def)
qed

section \<open>Marker regions\<close>

text \<open>The body without its markers.\<close>

abbreviation strip_markers :: "string \<Rightarrow> string" where
  "strip_markers \<equiv> re_sub MARKER (\<lambda>_ _. [])"

lemma region_pieces_concat:
  "region_pieces body name owners ms cursor category = Inr pieces \<Longrightarrow>
     concat (map fst pieces) = weave body cursor (map (\<lambda>m. (m_start m, m_end m, [])) ms)
     \<and> length pieces = Suc (length ms)"
  by (induction ms arbitrary: cursor category pieces) (auto simp: bindE_Inr_iff)

lemma region_tags_concat:
  assumes "region_tags body name = Inr pieces"
  shows "concat (map fst pieces) = strip_markers body" and "length pieces = Suc (length (find_matches MARKER body))"
  using assms region_pieces_concat by (auto simp: region_tags_def bindE_Inr_iff Let_def re_sub_def)

definition marker_fields :: "string \<Rightarrow> string list list" where
  "marker_fields body = map (\<lambda>m. split_ws (grp body m 1)) (find_matches MARKER body)"

text \<open>\<open>made ps owner origin\<close>: a marker among \<open>ps\<close> makes \<open>owner\<close> by an acquisition or a creation of that origin.\<close>

definition made :: "string list list \<Rightarrow> string \<Rightarrow> string \<Rightarrow> bool" where
  "made ps owner origin \<longleftrightarrow>
     (\<exists>p \<in> set ps. take 2 p = [''B'', ''A''] \<and> 5 < length p \<and> p ! 5 = owner \<and> p ! 2 = origin
       \<or> p ! 0 = ''K'' \<and> 2 < length p \<and> p ! 1 = owner \<and> p ! 2 = origin)"

lemma field_Inr_iff: "field ps i = Inr x \<longleftrightarrow> i < length ps \<and> ps ! i = x"
  by (auto simp: field_def)

lemma note_owners_made:
  assumes "foldE note_owner ps (acquired, created) = Inr (acquired', created')"
    and "dict_get acquired' owner = Some origin \<or> dict_get created' owner = Some origin"
  shows "dict_get acquired owner = Some origin \<or> dict_get created owner = Some origin \<or> made ps owner origin"
  using assms
proof (induction ps arbitrary: acquired created)
  case (Cons p ps)
  then obtain a c where step: "note_owner p (acquired, created) = Inr (a, c)"
    and rest: "foldE note_owner ps (a, c) = Inr (acquired', created')" by (auto simp: bindE_Inr_iff)
  from Cons.IH [OF rest Cons.prems(2)]
  consider "dict_get a owner = Some origin \<or> dict_get c owner = Some origin" | "made ps owner origin" by blast
  then show ?case
  proof cases
    case 1
    with step have "dict_get acquired owner = Some origin \<or> dict_get created owner = Some origin \<or> made [p] owner origin"
      by (auto simp: note_owner_def bindE_Inr_iff field_Inr_iff made_def dict_put_lookup split: if_splits)
    then show ?thesis by (auto simp: made_def)
  qed (auto simp: made_def)
qed auto

definition acquire_category :: "string \<Rightarrow> string \<Rightarrow> string \<Rightarrow> string" where
  "acquire_category reason source pair =
     ''acquire:'' @ reason @ (if reason = ''projection'' then [] else '':'' @ source)
       @ (if pair = ''pair'' then ''+pair'' else [])"

definition drop_category :: "string \<Rightarrow> string \<Rightarrow> string" where
  "drop_category origin partner = ''drop:'' @ origin @ (if partner = ''none'' then [] else ''+pair:'' @ partner)"

text \<open>What a region can be counted under, given the markers of its function.\<close>

definition region_category :: "string list list \<Rightarrow> string \<Rightarrow> bool" where
  "region_category ps category \<longleftrightarrow> category = ''unmarked''
     \<or> (\<exists>p \<in> set ps. \<exists>rest. take 5 p = [''B'', ''A''] @ rest \<and> length rest = 3
          \<and> category = acquire_category (rest ! 0) (rest ! 1) (rest ! 2))
     \<or> (\<exists>p \<in> set ps. \<exists>which owner partner origin. take 4 p = [''B'', which, owner, partner] \<and> which \<noteq> ''A''
          \<and> made ps owner origin \<and> category = drop_category origin partner)"

lemma cut_take: "cut s a b = drop a (take b s)"
  by (simp add: cut_def drop_take)

lemma take_2_split: "p ! 0 = a \<Longrightarrow> p ! 1 = b \<Longrightarrow> Suc 0 < length p \<Longrightarrow> Suc 0 < n \<Longrightarrow> drop 2 (take n p) = r \<Longrightarrow> take n p = a # b # r"
  by (cases p; cases "tl p"; cases n; cases "n - 1") auto

text \<open>\<open>marker_category\<close> by the kind of marker.\<close>

lemma marker_category_acquire:
  assumes "p ! 0 = ''B''" and "p ! 1 = ''A''" and "1 < length p"
  shows "marker_category name owners p category = Inr category' \<longleftrightarrow>
    (\<exists>r s t. cut p 2 5 = [r, s, t] \<and> category' = acquire_category r s t)"
proof -
  have "0 < length p" using assms(3) by linarith
  with assms have "marker_category name owners p category =
     (case cut p 2 5 of [r, s, t] \<Rightarrow> Inr (acquire_category r s t) | _ \<Rightarrow> Inl ValueError)"
    by (simp add: marker_category_def field_def acquire_category_def split: list.split)
  then show ?thesis by (auto split: list.splits)
qed

lemma marker_category_drop:
  assumes "p ! 0 = ''B''" and "p ! 1 \<noteq> ''A''" and "1 < length p"
  shows "marker_category name owners p category = Inr category' \<longleftrightarrow>
    (\<exists>owner partner origin. cut p 2 4 = [owner, partner] \<and> category' = drop_category origin partner
       \<and> (dict_get (fst owners) owner = Some origin
          \<or> dict_get (fst owners) owner = None \<and> dict_get (snd owners) owner = Some origin))"
proof -
  have "0 < length p" using assms(3) by linarith
  with assms have "marker_category name owners p category =
     (case cut p 2 4 of [owner, partner] \<Rightarrow>
        (case (case dict_get (fst owners) owner of Some o1 \<Rightarrow> Some o1 | None \<Rightarrow> dict_get (snd owners) owner) of
           None \<Rightarrow> fail_rc (name @ '' drops owner '' @ owner @ '', which no marker created'')
         | Some origin \<Rightarrow> Inr (drop_category origin partner)) | _ \<Rightarrow> Inl ValueError)"
    by (simp add: marker_category_def field_def drop_category_def split: list.split option.split)
  then show ?thesis by (auto simp: fail_rc_def split: list.splits option.splits)
qed

lemma marker_category_other:
  assumes "p ! 0 \<noteq> ''B''" and "0 < length p"
  shows "marker_category name owners p category = Inr (if p ! 0 = ''E'' then ''unmarked'' else category)"
  using assms by (simp add: marker_category_def field_def)

lemma marker_category_fields:
  assumes "marker_category name owners p category = Inr category'"
  shows "0 < length p" and "p ! 0 = ''B'' \<Longrightarrow> 1 < length p"
  using assms by (auto simp: marker_category_def bindE_Inr_iff field_def split: if_splits)

lemma marker_category_region:
  assumes m: "marker_category name owners p category = Inr category'"
    and old: "region_category ps category" and p: "p \<in> set ps"
    and owners: "\<And>owner origin. dict_get (fst owners) owner = Some origin \<or> dict_get (snd owners) owner = Some origin \<Longrightarrow>
           made ps owner origin"
  shows "region_category ps category'"
proof (cases "p ! 0 = ''B''")
  case b: True
  note len = marker_category_fields(2) [OF m b]
  show ?thesis
  proof (cases "p ! 1 = ''A''")
    case True
    with m b len obtain r s t where c: "cut p 2 5 = [r, s, t]" "category' = acquire_category r s t"
      unfolding marker_category_acquire [OF b True len] by blast
    have "take 5 p = [''B'', ''A''] @ [r, s, t]"
      using take_2_split [OF b True, of 5] len c(1) by (simp add: cut_take)
    with c(2) p show ?thesis unfolding region_category_def
      by (intro disjI2 disjI1 bexI [of _ p] exI [of _ "[r, s, t]"]) simp_all
  next
    case False
    with m b len obtain owner partner origin where c: "cut p 2 4 = [owner, partner]" "category' = drop_category origin partner"
        and o1: "dict_get (fst owners) owner = Some origin \<or> dict_get (snd owners) owner = Some origin"
      unfolding marker_category_drop [OF b False len] by blast
    have "take 4 p = [''B'', p ! 1, owner, partner]"
      using take_2_split [OF b refl, of 4] len c(1) by (simp add: cut_take)
    with c(2) p owners [OF o1] False show ?thesis unfolding region_category_def by blast
  qed
next
  case False
  with m old marker_category_other [OF False marker_category_fields(1) [OF m]] show ?thesis
    by (auto simp: region_category_def split: if_splits)
qed

lemma region_pieces_categories:
  assumes "region_pieces body name owners ms cursor category = Inr pieces" and "region_category ps category"
    and "\<And>m. m \<in> set ms \<Longrightarrow> split_ws (grp body m 1) \<in> set ps"
    and "\<And>owner origin. dict_get (fst owners) owner = Some origin \<or> dict_get (snd owners) owner = Some origin \<Longrightarrow>
           made ps owner origin"
    and "(code, c) \<in> set pieces"
  shows "region_category ps c"
  using assms(1,2,3,5)
proof (induction ms arbitrary: cursor category pieces)
  case (Cons m ms)
  then obtain category' rest where m: "marker_category name owners (split_ws (grp body m 1)) category = Inr category'"
    and rest: "region_pieces body name owners ms (m_end m) category' = Inr rest"
    and pieces: "pieces = (cut body cursor (m_start m), category) # rest"
    by (auto simp: bindE_Inr_iff)
  have "region_category ps category'"
    by (rule marker_category_region [OF m Cons.prems(2) _ assms(4)]) (use Cons.prems(3) in auto)
  with Cons.IH [OF rest] Cons.prems pieces show ?case by auto
qed auto

lemma region_tags_category:
  assumes "region_tags body name = Inr pieces" and "(code, category) \<in> set pieces"
  shows "region_category (marker_fields body) category"
proof -
  let ?ps = "marker_fields body"
  obtain owners where owners: "foldE note_owner ?ps ([], []) = Inr owners"
    and pieces: "region_pieces body name owners (find_matches MARKER body) 0 ''unmarked'' = Inr pieces"
    using assms(1) by (auto simp: region_tags_def marker_fields_def Let_def bindE_Inr_iff foldE_map)
  show ?thesis
  proof (rule region_pieces_categories [OF pieces _ _ _ assms(2)])
    show "made ?ps owner origin"
      if "dict_get (fst owners) owner = Some origin \<or> dict_get (snd owners) owner = Some origin" for owner origin
      using note_owners_made [of ?ps "[]" "[]" "fst owners" "snd owners"] owners that by auto
  qed (auto simp: region_category_def marker_fields_def)
qed

text \<open>
  The same, region by region. A region is governed by the last begin or end marker before it; a drop by the
  origin of its owner, the reason of the owner's last acquisition in the body or else the kind of its last creation.
\<close>

definition last_such :: "('a \<Rightarrow> bool) \<Rightarrow> 'a list \<Rightarrow> 'a option" where
  "last_such P xs = (if filter P xs = [] then None else Some (last (filter P xs)))"

lemma last_such_Nil [simp]: "last_such P [] = None"
  by (simp add: last_such_def)

lemma last_such_snoc [simp]: "last_such P (xs @ [x]) = (if P x then Some x else last_such P xs)"
  by (simp add: last_such_def)

definition owner_origin :: "string list list \<Rightarrow> string \<Rightarrow> string option" where
  "owner_origin ps owner =
     (case last_such (\<lambda>p. take 2 p = [''B'', ''A''] \<and> p ! 5 = owner) ps of
        Some p \<Rightarrow> Some (p ! 2)
      | None \<Rightarrow> map_option (\<lambda>p. p ! 2) (last_such (\<lambda>p. p ! 0 = ''K'' \<and> p ! 1 = owner) ps))"

definition governed :: "string list list \<Rightarrow> string list list \<Rightarrow> string" where
  "governed ps earlier =
     (case last_such (\<lambda>p. p ! 0 = ''B'' \<or> p ! 0 = ''E'') earlier of
        None \<Rightarrow> ''unmarked''
      | Some p \<Rightarrow>
          if p ! 0 = ''E'' then ''unmarked''
          else if p ! 1 = ''A'' then acquire_category (p ! 2) (p ! 3) (p ! 4)
          else drop_category (the (owner_origin ps (p ! 2))) (p ! 3))"

text \<open>The text before the \<open>k\<close>-th marker, from the end of the marker before it.\<close>

definition between :: "string \<Rightarrow> pymatch list \<Rightarrow> nat \<Rightarrow> string" where
  "between body ms k =
     cut body (if k = 0 then 0 else m_end (ms ! (k - 1))) (if k < length ms then m_start (ms ! k) else length body)"

lemma note_owners_last:
  "foldE note_owner ps ([], []) = Inr (acquired, created) \<Longrightarrow>
     dict_get acquired owner = map_option (\<lambda>p. p ! 2) (last_such (\<lambda>p. take 2 p = [''B'', ''A''] \<and> p ! 5 = owner) ps)
     \<and> dict_get created owner = map_option (\<lambda>p. p ! 2) (last_such (\<lambda>p. p ! 0 = ''K'' \<and> p ! 1 = owner) ps)"
proof (induction ps arbitrary: acquired created rule: rev_induct)
  case (snoc p ps)
  then obtain a c where a: "foldE note_owner ps ([], []) = Inr (a, c)" and p: "note_owner p (a, c) = Inr (acquired, created)"
    by (auto simp: foldE_append bindE_Inr_iff)
  have "p ! 0 = ''B''" if "take 2 p = [''B'', ''A'']" using that by (cases p) auto
  with p snoc.IH [OF a] show ?case
    by (auto simp: note_owner_def bindE_Inr_iff field_Inr_iff dict_put_lookup split: if_splits)
qed simp

lemma owners_origin:
  assumes "foldE note_owner ps ([], []) = Inr owners"
  shows "(case dict_get (fst owners) w of Some o1 \<Rightarrow> Some o1 | None \<Rightarrow> dict_get (snd owners) w) = owner_origin ps w"
  using note_owners_last [of ps "fst owners" "snd owners" w] assms
  by (auto simp: owner_origin_def split: option.splits)

lemma cut_nth: "cut p a b = r \<Longrightarrow> i < length r \<Longrightarrow> p ! (a + i) = r ! i"
  by (auto simp: cut_def)

lemma marker_category_governed:
  assumes m: "marker_category name owners p (governed ps earlier) = Inr category"
    and owners: "foldE note_owner ps ([], []) = Inr owners"
  shows "category = governed ps (earlier @ [p])"
proof (cases "p ! 0 = ''B''")
  case b: True
  note len = marker_category_fields(2) [OF m b]
  show ?thesis
  proof (cases "p ! 1 = ''A''")
    case True
    with m b len obtain r s t where c: "cut p 2 5 = [r, s, t]" "category = acquire_category r s t"
      unfolding marker_category_acquire [OF b True len] by blast
    have "p ! 2 = r" "p ! 3 = s" "p ! 4 = t"
      using cut_nth [OF c(1), of 0] cut_nth [OF c(1), of 1] cut_nth [OF c(1), of 2] by simp_all
    with b True c(2) show ?thesis by (simp add: governed_def)
  next
    case False
    with m b len obtain owner partner origin where c: "cut p 2 4 = [owner, partner]" "category = drop_category origin partner"
        and o1: "dict_get (fst owners) owner = Some origin
          \<or> dict_get (fst owners) owner = None \<and> dict_get (snd owners) owner = Some origin"
      unfolding marker_category_drop [OF b False len] by blast
    have "p ! 2 = owner" "p ! 3 = partner" using cut_nth [OF c(1), of 0] cut_nth [OF c(1), of 1] by simp_all
    moreover have "owner_origin ps owner = Some origin" using owners_origin [OF owners, of owner] o1 by auto
    ultimately show ?thesis using b False c(2) by (simp add: governed_def)
  qed
next
  case False
  with m marker_category_other [OF False marker_category_fields(1) [OF m], of name owners "governed ps earlier"]
  show ?thesis by (simp add: governed_def split: if_splits)
qed

lemma region_pieces_governed:
  assumes "region_pieces body name owners ms cursor (governed ps earlier) = Inr pieces"
    and "foldE note_owner ps ([], []) = Inr owners"
  shows "pieces = map (\<lambda>k. (cut body (if k = 0 then cursor else m_end (ms ! (k - 1))) (if k < length ms then m_start (ms ! k) else length body),
      governed ps (earlier @ map (\<lambda>m. split_ws (grp body m 1)) (take k ms)))) [0..<Suc (length ms)]"
  using assms(1)
proof (induction ms arbitrary: cursor earlier pieces)
  case Nil
  then show ?case by (simp add: cut_def)
next
  case (Cons m ms)
  then obtain category rest where m: "marker_category name owners (split_ws (grp body m 1)) (governed ps earlier) = Inr category"
    and rest: "region_pieces body name owners ms (m_end m) category = Inr rest"
    and pieces: "pieces = (cut body cursor (m_start m), governed ps earlier) # rest"
    by (auto simp: bindE_Inr_iff)
  note rest' = Cons.IH [OF rest [unfolded marker_category_governed [OF m assms(2)]]]
  have split: "[0..<Suc (length (m # ms))] = 0 # map Suc [0..<Suc (length ms)]"
    unfolding map_Suc_upt by (simp add: upt_conv_Cons del: upt_Suc)
  show ?case unfolding pieces rest' split list.map map_map
    by (rule arg_cong2 [where f = Cons]) (auto simp: nth_Cons split: nat.splits)
qed

lemma region_tags_governed:
  assumes "region_tags body name = Inr pieces"
  shows "pieces = map (\<lambda>k. (between body (find_matches MARKER body) k, governed (marker_fields body) (take k (marker_fields body))))
    [0..<Suc (length (find_matches MARKER body))]"
proof -
  obtain owners where "foldE note_owner (marker_fields body) ([], []) = Inr owners"
    and "region_pieces body name owners (find_matches MARKER body) 0 (governed (marker_fields body) []) = Inr pieces"
    using assms by (auto simp: region_tags_def marker_fields_def Let_def bindE_Inr_iff foldE_map governed_def)
  from region_pieces_governed [OF this(2,1)] show ?thesis
    by (simp add: between_def marker_fields_def take_map)
qed

lemma region_pieces_origins:
  assumes "region_pieces body name owners ms cursor category = Inr pieces" and "foldE note_owner ps ([], []) = Inr owners"
  shows "list_all (\<lambda>p. p ! 0 = ''B'' \<and> p ! 1 \<noteq> ''A'' \<longrightarrow> owner_origin ps (p ! 2) \<noteq> None) (map (\<lambda>m. split_ws (grp body m 1)) ms)"
  using assms(1)
proof (induction ms arbitrary: cursor category pieces)
  case (Cons m ms)
  then obtain category' rest where m: "marker_category name owners (split_ws (grp body m 1)) category = Inr category'"
    and rest: "region_pieces body name owners ms (m_end m) category' = Inr rest"
    by (auto simp: bindE_Inr_iff)
  let ?p = "split_ws (grp body m 1)"
  have "owner_origin ps (?p ! 2) \<noteq> None" if b: "?p ! 0 = ''B''" "?p ! 1 \<noteq> ''A''"
  proof -
    obtain owner partner origin where c: "cut ?p 2 4 = [owner, partner]"
      and o1: "dict_get (fst owners) owner = Some origin
          \<or> dict_get (fst owners) owner = None \<and> dict_get (snd owners) owner = Some origin"
      using m unfolding marker_category_drop [OF b marker_category_fields(2) [OF m b(1)]] by blast
    have "?p ! 2 = owner" using cut_nth [OF c, of 0] by simp
    moreover have "owner_origin ps owner = Some origin" using owners_origin [OF assms(2), of owner] o1 by auto
    ultimately show ?thesis by simp
  qed
  with Cons.IH [OF rest] show ?case by simp
qed simp

lemma region_tags_origins:
  assumes "region_tags body name = Inr pieces"
  shows "list_all (\<lambda>p. p ! 0 = ''B'' \<and> p ! 1 \<noteq> ''A'' \<longrightarrow> owner_origin (marker_fields body) (p ! 2) \<noteq> None) (marker_fields body)"
proof -
  obtain owners where "foldE note_owner (marker_fields body) ([], []) = Inr owners"
    and "region_pieces body name owners (find_matches MARKER body) 0 ''unmarked'' = Inr pieces"
    using assms by (auto simp: region_tags_def marker_fields_def Let_def bindE_Inr_iff foldE_map)
  from region_pieces_origins [OF this(2,1)] show ?thesis by (simp add: marker_fields_def)
qed

section \<open>The size of the counter array\<close>

lemma fold_max_ge: "x \<in> insert (a :: nat) (set xs) \<Longrightarrow> x \<le> fold max xs a"
proof (induction xs arbitrary: a x)
  case (Cons y ys)
  have a: "max y a \<le> fold max ys (max y a)" by (rule Cons.IH) simp
  show ?case
  proof (cases "x \<in> set ys")
    case True
    then show ?thesis using Cons.IH [of x "max y a"] by simp
  next
    case False
    with Cons.prems have "x \<le> max y a" by auto
    also note a
    finally show ?thesis by simp
  qed
qed simp

lemma max_of_ge: "x \<in> set xs \<Longrightarrow> x \<le> (case xs of [] \<Rightarrow> 0 | n # ns \<Rightarrow> fold max ns (n :: nat))"
proof (cases xs)
  case (Cons n ns)
  assume "x \<in> set xs"
  with fold_max_ge [of x n ns] show ?thesis by (simp add: Cons)
qed simp

lemma user_function_spans:
  assumes "spans source USER_FUNCTION i j"
  obtains d where "boundary source i" and "starts_at source ''blorp_f_'' i" and "i + 8 < length source"
    and "is_digit (source ! (i + 8))" and "spans source (Star digit_re) (i + 9) d" and "j = Suc d"
proof -
  from assms obtain k d where "boundary source i" "k = i + 8" "starts_at source ''blorp_f_'' i"
      "spans source (Plus digit_re) k d" "j = Suc d"
    by (auto simp: USER_FUNCTION_def spans_Seq spans_Grp spans_lit eval_nat_numeral elim!: spans_elims(6))
  then show ?thesis using that by (auto simp: spans_Seq spans_Cls eval_nat_numeral)
qed

lemma user_function_word:
  assumes "spans source USER_FUNCTION i j" and "i \<le> k" and "k < j - 1"
  shows "word_at source k"
proof -
  from assms(1) obtain d where pre: "starts_at source ''blorp_f_'' i" and j: "j = Suc d"
    and run: "spans source (Star digit_re) (i + 9) d" and first: "i + 8 < length source" "is_digit (source ! (i + 8))"
    by (rule user_function_spans)
  have "k < i + 8 \<or> k = i + 8 \<or> i + 9 \<le> k \<and> k < d" using assms(3) j by linarith
  then show ?thesis
  proof (elim disjE)
    assume "k < i + 8"
    then have "k - i < length ''blorp_f_''" using assms(2) by simp
    then have "k < length source \<and> source ! k = ''blorp_f_'' ! (k - i)"
      using starts_at_nth [OF pre, of "k - i"] assms(2) by simp
    moreover have "\<forall>c \<in> set ''blorp_f_''. is_word c" by (simp add: char_class_defs)
    ultimately show ?thesis using \<open>k - i < _\<close> by (metis nth_mem word_at_def)
  qed (use first spans_Star_Cls [OF run] in \<open>auto simp: word_at_def is_digit_imp_word\<close>)
qed

lemma function_limit_bound:
  assumes m: "match_at USER_FUNCTION source i = Some m" and i: "i \<le> length source"
  shows "digits_value (grp source m 1) \<le> function_limit source"
proof -
  have min: "0 < min_len USER_FUNCTION" by (simp add: USER_FUNCTION_def)
  from finditer_covers [OF _ i min m, of 0] obtain n where n: "n \<in> set (find_matches USER_FUNCTION source)"
    and cover: "m_start n \<le> i" "i < m_end n" by auto
  have nm: "match_at USER_FUNCTION source (m_start n) = Some n" "m_start n \<le> length source"
    using finditer_in [OF n] by auto
  have "m_start n = i"
  proof (rule ccontr)
    assume "m_start n \<noteq> i"
    with cover have "m_start n \<le> i - 1" "i - 1 < m_end n - 1" "0 < i" by linarith+
    then have prev: "word_at source (i - 1)"
      using user_function_word match_at_Some [OF nm] by metis
    have sp: "spans source USER_FUNCTION i (m_end m)" using match_at_Some [OF m i] by blast
    then obtain d where "boundary source i" "spans source (Star digit_re) (i + 9) d" "m_end m = Suc d"
      by (rule user_function_spans)
    moreover from this have "i < m_end m - 1" using spans_mono by fastforce
    ultimately show False using user_function_word [OF sp, of i] prev \<open>0 < i\<close> by (simp add: boundary_def)
  qed
  with nm m have "n = m" by simp
  with n have "digits_value (grp source m 1) \<in> set (map (\<lambda>m. digits_value (grp source m 1)) (find_matches USER_FUNCTION source))"
    by auto
  then show ?thesis unfolding function_limit_def by (rule max_of_ge)
qed

section \<open>The kinds mode\<close>

abbreviation kinds_body :: "string \<Rightarrow> string \<Rightarrow> string" where
  "kinds_body name body \<equiv> weave body 0
     (map (\<lambda>m. (m_start m, op_end body m, wrapped_op body name (counter_text Kinds) m)) (find_matches ATOMIC body))"

lemma rewrite_bodies_kinds:
  "rewrite_bodies source Kinds fns cursor wrapped names = Inr (out, wrapped', names') \<Longrightarrow>
     names' = names
     \<and> wrapped' = wrapped + sum_list (map (\<lambda>(name, a, b). length (find_matches ATOMIC (cut source a b))) fns)
     \<and> out = weave source cursor (map (\<lambda>(name, a, b). (a, b, kinds_body name (cut source a b))) fns)
     \<and> (\<forall>(name, a, b) \<in> set fns. \<exists>r. count_atomics (cut source a b) name (counter_text Kinds) = Inr r)"
  by (induction fns arbitrary: cursor wrapped out)
    (auto simp: bindE_Inr_iff count_atomics_spec, force+)

lemma rewrite_kinds:
  assumes "rewrite source Kinds = Inr (out, names)"
  shows "names = categories0"
    and "out = weave source 0 (map (\<lambda>(name, a, b). (a, b, kinds_body name (cut source a b))) (rc_functions source))"
    and "length (find_matches ATOMIC source)
           = sum_list (map (\<lambda>(name, a, b). length (find_matches ATOMIC (cut source a b))) (rc_functions source))"
    and "\<forall>(name, a, b) \<in> set (rc_functions source). \<exists>r. count_atomics (cut source a b) name (counter_text Kinds) = Inr r"
proof -
  obtain w where "rewrite_bodies source Kinds (rc_functions source) 0 0 categories0 = Inr (out, w, names)"
    and "w = length (find_matches ATOMIC source)"
    using assms by (auto simp: rewrite_def bindE_Inr_iff Let_def fail_rc_def split: if_splits)
  with rewrite_bodies_kinds [OF this(1)] show "names = categories0"
    and "out = weave source 0 (map (\<lambda>(name, a, b). (a, b, kinds_body name (cut source a b))) (rc_functions source))"
    and "length (find_matches ATOMIC source)
           = sum_list (map (\<lambda>(name, a, b). length (find_matches ATOMIC (cut source a b))) (rc_functions source))"
    and "\<forall>(name, a, b) \<in> set (rc_functions source). \<exists>r. count_atomics (cut source a b) name (counter_text Kinds) = Inr r"
    by auto
qed

end
