(* ===== verification/RC_Theorems.thy ===== *)
theory RC_Theorems
  imports Instrument_RC_Props
begin

unbundle bit_operations_syntax

text \<open>
  The properties of \<^verbatim>\<open>instrument_rc.py\<close>: what its rewrite keeps of the source, which operations it
  counts, under which tags, and what the script does to the file system. The samples are small C
  texts on which the definitions evaluate.
\<close>

section \<open>The rewrite\<close>

lemma not_isl_obtain: "\<not> isl r \<Longrightarrow> (\<And>x. r = Inr x \<Longrightarrow> thesis) \<Longrightarrow> thesis"
  by (metis isl_def obj_sumE)

text \<open>C6: a rewrite, in either mode, finds function bodies that are ordered and do not overlap, and changes
  nothing outside them: its output is the source with the text of each body replaced.\<close>

theorem rewrite_keeps_outside:
  assumes "rewrite source mode = Inr (out, names)"
  shows "ordered 0 (length source) (body_spans (rc_functions source))
    \<and> (\<exists>bodies. length bodies = length (rc_functions source)
         \<and> out = weave source 0 (map2 (\<lambda>(name, a, b) w. (a, b, w)) (rc_functions source) bodies))"
  using assms functions_ordered [of source] rewrite_bodies_weave [of source mode "rc_functions source" 0 0 categories0]
  by (auto simp: rewrite_def bindE_Inr_iff Let_def fail_rc_def split: if_splits)

definition rc_sample :: string where
  \<open>rc_sample = ''int x={1};g(){atomic_fetch_add_explicit(&a,1,m);}f(){g();}''\<close>

definition tagged_sample :: string where
  \<open>tagged_sample = ''blorp_f_3(){/*RC:K 7 n*/;/*RC:B D 7 none*/blorp_record_drop_R(q);/*RC:E*/}''\<close>

theorem rewrite_keeps_outside_witness:
  "\<exists>out names. rewrite rc_sample Tagged = Inr (out, names) \<and> length (rc_functions rc_sample) = 2
     \<and> (\<exists>bodies. length bodies = 2
         \<and> out = weave rc_sample 0 (map2 (\<lambda>(name, a, b) w. (a, b, w)) (rc_functions rc_sample) bodies))"
proof -
  have "\<not> isl (rewrite rc_sample Tagged)" by code_simp
  then obtain out names where r: "rewrite rc_sample Tagged = Inr (out, names)"
    by (rule not_isl_obtain) (metis surj_pair)
  have n: "length (rc_functions rc_sample) = 2" by code_simp
  show ?thesis using rewrite_keeps_outside [OF r] r n by auto
qed

text \<open>C18: in kinds mode every matched atomic operation of the source lies in a function body; when no
  operation is an argument of another, the output contains the source as a subsequence, so the
  instrumented program only gains the counters.\<close>

theorem rewrite_kinds_inserts_only:
  assumes "rewrite source Kinds = Inr (out, names)"
    and "\<forall>(name, a, b) \<in> set (rc_functions source). flat (cut source a b)"
  shows "subseq source out \<and> length (find_matches ATOMIC source)
    = sum_list (map (\<lambda>(name, a, b). length (find_matches ATOMIC (cut source a b))) (rc_functions source))"
proof
  let ?xs = "map (\<lambda>(name, a, b). (a, b, kinds_body name (cut source a b))) (rc_functions source)"
  have "subseq (drop 0 source) (weave source 0 ?xs)"
  proof (rule weave_subseq)
    have "map (\<lambda>(a, b, w). (a, b)) ?xs = body_spans (rc_functions source)" by (auto simp: case_prod_beta)
    then show "ordered 0 (length source) (map (\<lambda>(a, b, w). (a, b)) ?xs)" using functions_ordered [of source] by (simp only:)
    show "subseq (cut source a b) w" if "(a, b, w) \<in> set ?xs" for a b w
    proof -
      from that obtain name where f: "(name, a, b) \<in> set (rc_functions source)" and w: "w = kinds_body name (cut source a b)"
        by auto
      from f rewrite_kinds(4) [OF assms(1)] obtain r where "count_atomics (cut source a b) name (counter_text Kinds) = Inr r"
        by fastforce
      then obtain n where "count_atomics (cut source a b) name (counter_text Kinds) = Inr (w, n)"
        using w by (cases r) (simp add: count_atomics_spec)
      then show ?thesis by (rule count_atomics_inserts) (use assms(2) f in auto)
    qed
  qed
  then show "subseq source out" using rewrite_kinds(2) [OF assms(1)] by simp
  show "length (find_matches ATOMIC source)
    = sum_list (map (\<lambda>(name, a, b). length (find_matches ATOMIC (cut source a b))) (rc_functions source))"
    by (rule rewrite_kinds(3) [OF assms(1)])
qed

theorem rewrite_kinds_inserts_only_witness:
  "\<exists>out names. rewrite rc_sample Kinds = Inr (out, names) \<and> subseq rc_sample out
     \<and> length (find_matches ATOMIC rc_sample) = 1"
proof -
  have "\<not> isl (rewrite rc_sample Kinds)" by code_simp
  then obtain out names where r: "rewrite rc_sample Kinds = Inr (out, names)"
    by (rule not_isl_obtain) (metis surj_pair)
  have f: "\<forall>(name, a, b) \<in> set (rc_functions rc_sample). flat (cut rc_sample a b)" by code_simp
  have n: "length (find_matches ATOMIC rc_sample) = 1" by code_simp
  show ?thesis using rewrite_kinds_inserts_only [OF r f] r n by auto
qed

section \<open>Counting\<close>

text \<open>C17: counting succeeds exactly when the argument list of every matched atomic operation closes; then the number of
  sites is the number of matches, and the output is the body with each operation, from its name to the parenthesis
  that balances its argument list, wrapped in a comma expression that first bumps the counter of the operation's
  direction and of the kind that the name of the function starts with.\<close>

theorem count_atomics_wraps:
  "count_atomics body function counter = Inr (out, n) \<longleftrightarrow>
     (\<exists>ends k. list_all2 (\<lambda>m e. closes body (args_at body m) e) (find_matches ATOMIC body) ends \<and> of_kind function k
        \<and> n = length (find_matches ATOMIC body) \<and> out = weave body 0 (map2 (wraps body counter k) (find_matches ATOMIC body) ends))"
  by (rule count_atomics_ends)

text \<open>On a body with one operation, nested parentheses included.\<close>

theorem count_atomics_wraps_witness:
  \<open>\<exists>ends k. list_all2 (\<lambda>m e. closes ''g(atomic_fetch_sub_explicit( &a,(1),m))'' (args_at ''g(atomic_fetch_sub_explicit( &a,(1),m))'' m) e)
      (find_matches ATOMIC ''g(atomic_fetch_sub_explicit( &a,(1),m))'') ends \<and> of_kind ''blorp_list_x'' k
     \<and> ''g((blorp_rc_kind_counts[3]++,atomic_fetch_sub_explicit( &a,(1),m)))'' = weave ''g(atomic_fetch_sub_explicit( &a,(1),m))'' 0
         (map2 (wraps ''g(atomic_fetch_sub_explicit( &a,(1),m))'' (counter_text Kinds) k)
           (find_matches ATOMIC ''g(atomic_fetch_sub_explicit( &a,(1),m))'') ends)\<close>
proof -
  have r: \<open>count_atomics ''g(atomic_fetch_sub_explicit( &a,(1),m))'' ''blorp_list_x'' (counter_text Kinds)
     = Inr (''g((blorp_rc_kind_counts[3]++,atomic_fetch_sub_explicit( &a,(1),m)))'', 1)\<close> by code_simp
  from r [unfolded count_atomics_wraps] show ?thesis by blast
qed

section \<open>Categories and tags\<close>

text \<open>C20: the categories of a rewrite are distinct, fit seven bits, and start with \<open>untagged\<close>, the
  category of tag zero.\<close>

theorem rewrite_categories_ok:
  assumes "rewrite source mode = Inr (out, names)"
  shows "distinct names \<and> names \<noteq> [] \<and> length names \<le> CATEGORY_MASK + 1 \<and> names ! 0 = ''untagged''"
  using rewrite_categories [OF assms] by (simp add: category_mask)

theorem rewrite_categories_ok_witness:
  "rewrite ''f(){blorp_string_retain(x);}'' Tagged
     = Inr (''f(){(blorp_rc_tag=(blorp_rc_tag&~127u)|1u,blorp_string_retain)(x);}'', [''untagged'', ''runtime_other''])
   \<and> distinct [''untagged'', ''runtime_other'']"
proof -
  have r: "rewrite ''f(){blorp_string_retain(x);}'' Tagged
     = Inr (''f(){(blorp_rc_tag=(blorp_rc_tag&~127u)|1u,blorp_string_retain)(x);}'', [''untagged'', ''runtime_other''])"
    by code_simp
  from rewrite_categories_ok [OF r] r show ?thesis by blast
qed

text \<open>C7: the tags written into a user function: for the function numbered \<open>f\<close>, whose name occurs as a call
  or definition in the source, every region gets one tag; the tag is an index of the counter array the
  prelude declares, its upper bits are the function number and its lower seven bits are the position of
  the region's category in the final category list, so the report's shift and mask recover both.\<close>

theorem tags_decode:
  assumes "match_at USER_FUNCTION source i = Some m" and "i \<le> length source"
    and "f = digits_value (grp source m 1)" and "length names \<le> CATEGORY_MASK + 1"
    and "tag_regions (push_bit CATEGORY_BITS f) regions names = Inr (out, names')"
  shows "\<exists>tags. length tags = length regions \<and> out = concat (map2 (tagged_piece f) regions tags)
    \<and> (\<forall>k < length regions. tags ! k < tag_limit (function_limit source)
         \<and> drop_bit CATEGORY_BITS (tags ! k) = f \<and> (tags ! k) AND CATEGORY_MASK < length names'
         \<and> names' ! ((tags ! k) AND CATEGORY_MASK) = snd (regions ! k))"
proof -
  have "f \<le> function_limit source" using function_limit_bound [OF assms(1,2)] assms(3) by simp
  then have "tag_limit f \<le> tag_limit (function_limit source)"
    by (simp add: tag_limit_def CATEGORY_BITS_def push_bit_eq_mult)
  moreover obtain tags where "length tags = length regions" "out = concat (map2 (tagged_piece f) regions tags)"
      "\<forall>i < length regions. tags ! i < tag_limit f \<and> drop_bit CATEGORY_BITS (tags ! i) = f
         \<and> (tags ! i) AND CATEGORY_MASK < length names' \<and> names' ! ((tags ! i) AND CATEGORY_MASK) = snd (regions ! i)"
    using tag_regions_spec [OF assms(5)] assms(4) by (auto simp: category_mask)
  ultimately show ?thesis by (intro exI [of _ tags]) (meson less_le_trans)
qed

theorem tags_decode_witness:
  "(\<exists>tags. length tags = 1 \<and> tags ! 0 < tag_limit (function_limit ''blorp_f_3()'')
      \<and> drop_bit CATEGORY_BITS (tags ! 0) = 3)
   \<and> tag_regions (push_bit CATEGORY_BITS 3) [(''d(x);'', ''drop:n'')] [''untagged'']
       = Inr (''d(x);'', [''untagged'', ''drop:n''])"
proof -
  have t: "tag_regions (push_bit CATEGORY_BITS 3) [(''d(x);'', ''drop:n'')] [''untagged'']
       = Inr (''d(x);'', [''untagged'', ''drop:n''])" by code_simp
  have m: "match_at USER_FUNCTION ''blorp_f_3()'' 0 = Some \<lparr>m_start = 0, m_end = 10, m_caps = [(1, 8, 9)]\<rparr>" by code_simp
  have f: "3 = digits_value (grp ''blorp_f_3()'' \<lparr>m_start = 0, m_end = 10, m_caps = [(1, 8, 9)]\<rparr> 1)" by code_simp
  have "\<exists>tags. length tags = length [(''d(x);'', ''drop:n'')]
    \<and> ''d(x);'' = concat (map2 (tagged_piece 3) [(''d(x);'', ''drop:n'')] tags)
    \<and> (\<forall>k < length [(''d(x);'', ''drop:n'')]. tags ! k < tag_limit (function_limit ''blorp_f_3()'')
         \<and> drop_bit CATEGORY_BITS (tags ! k) = 3 \<and> (tags ! k) AND CATEGORY_MASK < length [''untagged'', ''drop:n'']
         \<and> [''untagged'', ''drop:n''] ! ((tags ! k) AND CATEGORY_MASK) = snd ([(''d(x);'', ''drop:n'')] ! k))"
    by (rule tags_decode [OF m _ f _ t]) (simp_all add: category_mask)
  then obtain tags where "length tags = 1" "tags ! 0 < tag_limit (function_limit ''blorp_f_3()'')"
    "drop_bit CATEGORY_BITS (tags ! 0) = 3" by auto
  then show ?thesis by (intro conjI [OF _ t] exI [of _ tags]) auto
qed

text \<open>C9: the regions of a marked body, each with its own category: the \<open>k\<close>-th piece is the text between two
  markers, and it is counted as the last begin or end marker before it says, that is, under the reason, source and
  pairing of this acquire marker, or, for a drop, under the origin of the dropped owner, the reason of its last
  acquisition in the body or else the kind of its last creation, which exists; after an end marker, and before any,
  it is unmarked. Together the pieces are the body without its markers.\<close>

theorem region_tags_sound:
  assumes "region_tags body name = Inr pieces"
  shows "pieces = map (\<lambda>k. (between body (find_matches MARKER body) k, governed (marker_fields body) (take k (marker_fields body))))
      [0..<Suc (length (find_matches MARKER body))]
    \<and> list_all (\<lambda>p. p ! 0 = ''B'' \<and> p ! 1 \<noteq> ''A'' \<longrightarrow> owner_origin (marker_fields body) (p ! 2) \<noteq> None) (marker_fields body)
    \<and> concat (map fst pieces) = strip_markers body"
  by (intro conjI region_tags_governed [OF assms] region_tags_origins [OF assms] region_tags_concat(1) [OF assms])

theorem region_tags_sound_witness:
  "region_tags ''a/*RC:K 7 n*/b/*RC:B D 7 none*/c/*RC:E*/d'' ''f''
     = Inr [(''a'', ''unmarked''), (''b'', ''unmarked''), (''c'', ''drop:n''), (''d'', ''unmarked'')]
   \<and> governed [[''K'', ''7'', ''n''], [''B'', ''D'', ''7'', ''none''], [''E'']] [[''K'', ''7'', ''n''], [''B'', ''D'', ''7'', ''none'']] = ''drop:n''
   \<and> ''abcd'' = strip_markers ''a/*RC:K 7 n*/b/*RC:B D 7 none*/c/*RC:E*/d''"
proof -
  have r: "region_tags ''a/*RC:K 7 n*/b/*RC:B D 7 none*/c/*RC:E*/d'' ''f''
     = Inr [(''a'', ''unmarked''), (''b'', ''unmarked''), (''c'', ''drop:n''), (''d'', ''unmarked'')]" by code_simp
  have g: "governed [[''K'', ''7'', ''n''], [''B'', ''D'', ''7'', ''none''], [''E'']] [[''K'', ''7'', ''n''], [''B'', ''D'', ''7'', ''none'']] = ''drop:n''"
    by code_simp
  have "concat (map fst [(''a'', ''unmarked''), (''b'', ''unmarked''), (''c'', ''drop:n''), (''d'', ''unmarked'')])
     = strip_markers ''a/*RC:K 7 n*/b/*RC:B D 7 none*/c/*RC:E*/d''" by (rule conjunct2 [OF conjunct2 [OF region_tags_sound [OF r]]])
  with r g show ?thesis by simp
qed

section \<open>The script\<close>

text \<open>The check on helper mentions passes exactly when no helper name stands anywhere in the source
  without an argument list after it.\<close>

lemma check_only_calls_iff:
  "check_only_calls source = Inr () \<longleftrightarrow> (\<forall>i \<le> length source. \<forall>j. \<not> spans source BARE_HELPER i j)"
  unfolding finditer_Nil_iff [symmetric]
  by (auto simp: check_only_calls_def fail_rc_def split: list.splits)

text \<open>C21: the script either fails and leaves every file as it was, or it writes the instrumented text to the
  output and the numbered categories to the categories file and touches no other file.\<close>

theorem rc_main_outcome:
  assumes "rc_main arguments fs = (fs', r)"
  shows "(\<exists>e. r = Inl e \<and> fs' = fs)
    \<or> (\<exists>mode source_path output_path categories_path raw code names.
         rc_arguments arguments = Some (mode, source_path, output_path, categories_path)
         \<and> fs source_path = Some raw \<and> instrumented (universal_newlines raw) mode = Inr (code, names)
         \<and> (\<forall>p. p \<noteq> output_path \<longrightarrow> categories_path \<noteq> Some p \<longrightarrow> fs' p = fs p)
         \<and> (categories_path \<noteq> Some output_path \<longrightarrow> fs' output_path = Some code)
         \<and> (\<forall>p. categories_path = Some p \<longrightarrow> p \<noteq> [] \<longrightarrow> fs' p = Some (categories_text names)))"
  using assms
  by (auto simp: rc_main_def Let_def split: option.splits sum.splits prod.splits if_splits)

theorem rc_main_outcome_witness:
  "\<exists>fs'. rc_main [''--kinds'', ''i'', ''o''] [''i'' \<mapsto> ''f(){}''] = (fs', Inr ''instrumented kinds: 0 atomic operations, 1 categories'')
     \<and> fs' ''i'' = Some ''f(){}''"
proof -
  let ?r = "rc_main [''--kinds'', ''i'', ''o''] [''i'' \<mapsto> ''f(){}'']"
  have r: "snd ?r = Inr ''instrumented kinds: 0 atomic operations, 1 categories''" by code_simp
  have a: "rc_arguments [''--kinds'', ''i'', ''o''] = Some (Kinds, ''i'', ''o'', None)" by code_simp
  have eq: "?r = (fst ?r, Inr ''instrumented kinds: 0 atomic operations, 1 categories'')" using r by (metis prod.collapse)
  have "fst ?r ''i'' = Some ''f(){}''"
    using rc_main_outcome [OF eq] unfolding a by auto
  with r show ?thesis by (metis prod.collapse)
qed

end
