(* ===== verification/Emit_Markers.thy ===== *)
theory Emit_Markers
  imports Py_Scan Py_Data
begin

text \<open>
  \<^verbatim>\<open>blorp/scripts/attribution/patch_emit_markers.py\<close>: the script that patches a scratch copy of the
  compiler's emitter so that the compiler writes a marker comment around every reference-count
  operation, and the Blorp functions it adds to the emitter. The script is modelled as text
  replacement on the file; the functions it inserts are modelled over the ownership operations of
  \<^verbatim>\<open>blorp/src/own/own.brp\<close>, whose payloads that no marker function inspects are a type parameter.
\<close>

section \<open>The edits\<close>

definition REASON_FUNCTIONS :: string where
  \<open>REASON_FUNCTIONS = ''
-- Scratch attribution marker: why an AcquireOwner exists, from its neighbours.
private pure func rc_reason_before_definition(operations: List[OwnershipOperation], index: Int) -> String:
	match operations.get(index):
		Some(AcquireOwner(_, _, _)): rc_reason_before_definition(operations, index.add(1))
		Some(DropOwner(_, _)): rc_reason_before_definition(operations, index.add(1))
		Some(DefineValue(definition)):
			match definition.operation:
				CallDefinition(_, _) | InvokeCallableDefinition(_, _): "call"
				ConstructRecordDefinition(_, _) | ConstructDefinition(_, _) | ConstructListDefinition(_) | CapturedCallableDefinition(_, _): "stored"
				_: "other_definition"
		Some(ExecuteJoin(_)): "before_control"
		Some(ExecuteLoop(_)): "before_control"
		None: "block_end"


private pure func rc_reason(operations: List[OwnershipOperation], position: Int, borrowed_value: Int) -> String:
	var projected: Bool = False
	if position.greater_than(0):
		match operations.get(position.subtract(1)):
			Some(DefineValue(definition)):
				match definition.operation:
					ReadRecordFieldDefinition(_, _): projected = value_number(definition.id) == borrowed_value
					_: void
			_: void
	if projected:
		"projection"
	else:
		rc_reason_before_definition(operations, position.add(1))


private pure func rc_source_name(source: BorrowSource) -> String:
	match source:
		ParameterBorrow(_): "parameter"
		OwnerBorrow(_): "owner"
		PayloadBorrow(_): "payload"


-- True when only acquisitions, drops and at most `definitions_left` definitions
-- separate the operation at `index` from a drop of `owner`: the pair
-- "acquire from owner, then drop owner" that a move would replace.
private pure func rc_drops_owner_after(operations: List[OwnershipOperation], index: Int, owner: Int, definitions_left: Int) -> Bool:
	match operations.get(index):
		Some(DropOwner(dropped, _)):
			if owner_number(dropped) == owner:
				True
			else:
				rc_drops_owner_after(operations, index.add(1), owner, definitions_left)
		Some(AcquireOwner(_, _, _)): rc_drops_owner_after(operations, index.add(1), owner, definitions_left)
		Some(DefineValue(_)):
			if definitions_left.greater_than(0):
				rc_drops_owner_after(operations, index.add(1), owner, definitions_left.subtract(1))
			else:
				False
		_: False


-- The reason of the acquisition from `owner` that precedes `index` (skipping acquisitions,
-- drops and at most `definitions_left` definitions), or "none".
private pure func rc_partner_reason(operations: List[OwnershipOperation], index: Int, owner: Int, definitions_left: Int) -> String:
	if index.less_than(0):
		"none"
	else:
		match operations.get(index):
			Some(AcquireOwner(_, borrowed, _)):
				match borrowed.source:
					OwnerBorrow(source):
						if owner_number(source) == owner:
							rc_reason(operations, index, value_number(borrowed.value))
						else:
							rc_partner_reason(operations, index.subtract(1), owner, definitions_left)
					_: rc_partner_reason(operations, index.subtract(1), owner, definitions_left)
			Some(DropOwner(_, _)): rc_partner_reason(operations, index.subtract(1), owner, definitions_left)
			Some(DefineValue(_)):
				if definitions_left.greater_than(0):
					rc_partner_reason(operations, index.subtract(1), owner, definitions_left.subtract(1))
				else:
					"none"
			_: "none"


private pure func rc_acquire_pair(operations: List[OwnershipOperation], position: Int, source: BorrowSource) -> String:
	match source:
		OwnerBorrow(owner):
			if rc_drops_owner_after(operations, position.add(1), owner_number(owner), 1):
				"pair"
			else:
				"solo"
		_: "solo"


private pure func rc_marked(operations: List[OwnershipOperation], position: Int, operation: OwnershipOperation, emitted: String) -> String:
	match operation:
		AcquireOwner(owner, borrowed, _):
			"/*RC:B A ${rc_reason(operations, position, value_number(borrowed.value))} ${rc_source_name(borrowed.source)} ${rc_acquire_pair(operations, position, borrowed.source)} ${owner_number(owner).to_string()}*/${emitted}/*RC:E*/"
		DropOwner(owner, _):
			"/*RC:B D ${owner_number(owner).to_string()} ${rc_partner_reason(operations, position.subtract(1), owner_number(owner), 1)}*/${emitted}/*RC:E*/"
		_: emitted


private pure func rc_definition_kind(operation: OwnedValueOperation) -> String:
	match operation:
		ParameterDefinition(_): "parameter"
		CallDefinition(_, _) | InvokeCallableDefinition(_, _): "call_result"
		ConstructRecordDefinition(_, _) | ConstructDefinition(_, _) | ConstructListDefinition(_) | CapturedCallableDefinition(_, _) | FreeCallableDefinition(_): "constructed"
		ListSuffixDefinition(_, _): "list_suffix"
		StringDefinition(_): "string_literal"
		_: "other"


''\<close>

definition import_edit :: "string \<times> string" where
  \<open>import_edit =
    (''		OwnedValueOperation(
'',
     ''		BorrowSource(ParameterBorrow, OwnerBorrow, PayloadBorrow),
		OwnedValueOperation(
'')\<close>

definition operations_edit :: "string \<times> string" where
  \<open>operations_edit =
    (''	var fragments: List[String] = [output]
	var failure: Option[Diagnostic] = None

	for operation in operations:
		match append_ownership_operation("", operation, unions, types, records, nearest):
			Err(error):
				failure = Some(error)
				break
			Ok(emitted):
				fragments = fragments.append(emitted)
'',
     ''	var fragments: List[String] = [output]
	var failure: Option[Diagnostic] = None
	var position = 0

	for operation in operations:
		match append_ownership_operation("", operation, unions, types, records, nearest):
			Err(error):
				failure = Some(error)
				break
			Ok(emitted):
				fragments = fragments.append(rc_marked(operations, position, operation, emitted))
		position = position.add(1)
'')\<close>

definition loop_entry_edit :: "string \<times> string" where
  \<open>loop_entry_edit =
    (''		match append_ownership_operation(entered, AcquireOwner(acquisition.owner, acquisition.borrow, join_parameter(loop.result).span), unions, types, records, None):
			Ok(acquired): entered = acquired
'',
     ''		match append_ownership_operation("", AcquireOwner(acquisition.owner, acquisition.borrow, join_parameter(loop.result).span), unions, types, records, None):
			Ok(acquired): entered = "${entered}/*RC:B A loop_entry ${rc_source_name(acquisition.borrow.source)} solo ${owner_number(acquisition.owner).to_string()}*/${acquired}/*RC:E*/"
'')\<close>

definition definition_edit :: "string \<times> string" where
  \<open>definition_edit =
    (''				Ok(binding): Ok("${value}${binding}")
'',
     ''				Ok(binding): Ok("${value}${binding}/*RC:K ${owner_number(owner).to_string()} ${rc_definition_kind(definition.operation)}*/")
'')\<close>

definition input_owner_edit :: "string \<times> string" where
  \<open>input_owner_edit =
    (''Ok(binding): result = "${result}${binding}"'',
     ''Ok(binding): result = "${result}${binding}/*RC:K ${owner_number(owner).to_string()} input_owner*/"'')\<close>

definition loop_header_edit :: "string \<times> string" where
  \<open>loop_header_edit =
    (''Ok(binding): snapshots = "${snapshots}${binding}"'',
     ''Ok(binding): snapshots = "${snapshots}${binding}/*RC:K ${owner_number(owner).to_string()} loop_header*/"'')\<close>

definition join_output_edit :: "string \<times> string" where
  \<open>join_output_edit =
    (''Ok(binding): joined = "${joined}${binding}"'',
     ''Ok(binding): joined = "${joined}${binding}/*RC:K ${owner_number(owner).to_string()} join_output*/"'')\<close>

definition functions_edit :: "string \<times> string" where
  \<open>functions_edit =
    (''private pure func append_ownership_operation(
'', REASON_FUNCTIONS @ ''private pure func append_ownership_operation(
'')\<close>

definition EDITS :: "(string \<times> string) list" where
  "EDITS = [import_edit, operations_edit, loop_entry_edit, definition_edit, input_owner_edit, loop_header_edit, join_output_edit, functions_edit]"

section \<open>The script\<close>

text \<open>\<open>s.rstrip(c)\<close> for one character.\<close>

definition rstrip_char :: "char \<Rightarrow> string \<Rightarrow> string" where
  "rstrip_char c s = rev (dropWhile (\<lambda>d. d = c) (rev s))"

definition emit_path :: "string \<Rightarrow> string" where
  "emit_path root = rstrip_char CHR ''/'' root @ ''/emit/emit.brp''"

definition apply_edit :: "string \<times> string \<Rightarrow> string \<Rightarrow> string result" where
  "apply_edit edit source =
     (let (old, new) = edit in
      if count_sub source old \<noteq> 1
      then Inl (SystemExit (''error: patch_emit_markers: anchor found '' @ show_nat (count_sub source old)
             @ '' times (expected 1):'' @ [newline] @ old))
      else Inr (replace_first source old new))"

definition patch :: "string \<Rightarrow> string result" where
  "patch source = foldE apply_edit EDITS source"

text \<open>The script on its arguments and the files: the files afterwards and the line it prints, or the failure.\<close>

definition markers_main :: "string list \<Rightarrow> (string \<rightharpoonup> string) \<Rightarrow> (string \<rightharpoonup> string) \<times> string result" where
  "markers_main arguments fs =
     (case arguments of
        [] \<Rightarrow> (fs, Inl IndexError)
      | root # _ \<Rightarrow>
          (let path = emit_path root in
           case fs path of
             None \<Rightarrow> (fs, Inl OSError)
           | Some raw \<Rightarrow>
               (case patch (universal_newlines raw) of
                  Inl e \<Rightarrow> (fs, Inl e)
                | Inr patched \<Rightarrow>
                    (fs(path \<mapsto> patched),
                     Inr (''patched '' @ path @ '' with '' @ show_nat (length EDITS) @ '' edits'')))))"

section \<open>Ownership operations\<close>

datatype borrow_source = ParameterBorrow int | OwnerBorrow int | PayloadBorrow int

record borrowed_value =
  b_value :: int
  b_source :: borrow_source

datatype 'x owned_value_operation =
    ConstructRecordDefinition 'x
  | ReadRecordFieldDefinition 'x
  | ParameterDefinition int
  | VoidDefinition
  | IntegerDefinition int
  | FloatDefinition 'x
  | StringDefinition string
  | CallDefinition 'x
  | InvokeCallableDefinition 'x
  | FreeCallableDefinition 'x
  | CapturedCallableDefinition 'x
  | ConstructDefinition 'x
  | ConstructListDefinition 'x
  | PayloadDefinition 'x
  | ListElementDefinition 'x
  | ListSuffixDefinition 'x

record 'x owned_definition =
  d_id :: int
  d_operation :: "'x owned_value_operation"
  d_rest :: 'x

datatype 'x ownership_operation =
    DefineValue "'x owned_definition"
  | ExecuteJoin 'x
  | ExecuteLoop 'x
  | AcquireOwner int borrowed_value
  | DropOwner int

section \<open>The marker functions\<close>

text \<open>\<open>operations.get(index)\<close>.\<close>

definition get_at :: "'a list \<Rightarrow> int \<Rightarrow> 'a option" where
  "get_at xs i = (if 0 \<le> i \<and> i < int (length xs) then Some (xs ! nat i) else None)"

lemma get_at_Some: "get_at xs i = Some x \<Longrightarrow> 0 \<le> i \<and> i < int (length xs) \<and> xs ! nat i = x"
  by (simp add: get_at_def split: if_splits)

function rc_reason_before_definition :: "'x ownership_operation list \<Rightarrow> int \<Rightarrow> string" where
  "rc_reason_before_definition operations index =
     (case get_at operations index of
        Some (AcquireOwner _ _) \<Rightarrow> rc_reason_before_definition operations (index + 1)
      | Some (DropOwner _) \<Rightarrow> rc_reason_before_definition operations (index + 1)
      | Some (DefineValue d) \<Rightarrow>
          (case d_operation d of
             CallDefinition _ \<Rightarrow> ''call''
           | InvokeCallableDefinition _ \<Rightarrow> ''call''
           | ConstructRecordDefinition _ \<Rightarrow> ''stored''
           | ConstructDefinition _ \<Rightarrow> ''stored''
           | ConstructListDefinition _ \<Rightarrow> ''stored''
           | CapturedCallableDefinition _ \<Rightarrow> ''stored''
           | _ \<Rightarrow> ''other_definition'')
      | Some (ExecuteJoin _) \<Rightarrow> ''before_control''
      | Some (ExecuteLoop _) \<Rightarrow> ''before_control''
      | None \<Rightarrow> ''block_end'')"
  by pat_completeness auto
termination
  by (relation "measure (\<lambda>(xs, i). nat (int (length xs) - i))") (auto dest: get_at_Some)

declare rc_reason_before_definition.simps [simp del]

definition rc_reason :: "'x ownership_operation list \<Rightarrow> int \<Rightarrow> int \<Rightarrow> string" where
  "rc_reason operations position borrowed_value =
     (let projected =
        (if position > 0 then
           (case get_at operations (position - 1) of
              Some (DefineValue d) \<Rightarrow>
                (case d_operation d of ReadRecordFieldDefinition _ \<Rightarrow> d_id d = borrowed_value | _ \<Rightarrow> False)
            | _ \<Rightarrow> False)
         else False)
      in if projected then ''projection'' else rc_reason_before_definition operations (position + 1))"

fun rc_source_name :: "borrow_source \<Rightarrow> string" where
  "rc_source_name (ParameterBorrow _) = ''parameter''"
| "rc_source_name (OwnerBorrow _) = ''owner''"
| "rc_source_name (PayloadBorrow _) = ''payload''"

function rc_drops_owner_after :: "'x ownership_operation list \<Rightarrow> int \<Rightarrow> int \<Rightarrow> int \<Rightarrow> bool" where
  "rc_drops_owner_after operations index owner definitions_left =
     (case get_at operations index of
        Some (DropOwner dropped) \<Rightarrow>
          if dropped = owner then True else rc_drops_owner_after operations (index + 1) owner definitions_left
      | Some (AcquireOwner _ _) \<Rightarrow> rc_drops_owner_after operations (index + 1) owner definitions_left
      | Some (DefineValue _) \<Rightarrow>
          if definitions_left > 0
          then rc_drops_owner_after operations (index + 1) owner (definitions_left - 1)
          else False
      | _ \<Rightarrow> False)"
  by pat_completeness auto
termination
  by (relation "measure (\<lambda>(xs, i, w, n). nat (int (length xs) - i))") (auto dest: get_at_Some)

declare rc_drops_owner_after.simps [simp del]

function rc_partner_reason :: "'x ownership_operation list \<Rightarrow> int \<Rightarrow> int \<Rightarrow> int \<Rightarrow> string" where
  "rc_partner_reason operations index owner definitions_left =
     (if index < 0 then ''none''
      else case get_at operations index of
        Some (AcquireOwner _ borrowed) \<Rightarrow>
          (case b_source borrowed of
             OwnerBorrow source \<Rightarrow>
               if source = owner then rc_reason operations index (b_value borrowed)
               else rc_partner_reason operations (index - 1) owner definitions_left
           | _ \<Rightarrow> rc_partner_reason operations (index - 1) owner definitions_left)
      | Some (DropOwner _) \<Rightarrow> rc_partner_reason operations (index - 1) owner definitions_left
      | Some (DefineValue _) \<Rightarrow>
          if definitions_left > 0
          then rc_partner_reason operations (index - 1) owner (definitions_left - 1)
          else ''none''
      | _ \<Rightarrow> ''none'')"
  by pat_completeness auto
termination
  by (relation "measure (\<lambda>(xs, i, w, n). nat (i + 1))") auto

declare rc_partner_reason.simps [simp del]

definition rc_acquire_pair :: "'x ownership_operation list \<Rightarrow> int \<Rightarrow> borrow_source \<Rightarrow> string" where
  "rc_acquire_pair operations position source =
     (case source of
        OwnerBorrow owner \<Rightarrow> if rc_drops_owner_after operations (position + 1) owner 1 then ''pair'' else ''solo''
      | _ \<Rightarrow> ''solo'')"

definition rc_marked :: "'x ownership_operation list \<Rightarrow> int \<Rightarrow> 'x ownership_operation \<Rightarrow> string \<Rightarrow> string" where
  "rc_marked operations position operation emitted =
     (case operation of
        AcquireOwner owner borrowed \<Rightarrow>
          ''/*RC:B A '' @ rc_reason operations position (b_value borrowed) @ '' '' @ rc_source_name (b_source borrowed)
            @ '' '' @ rc_acquire_pair operations position (b_source borrowed) @ '' '' @ show_int owner @ ''*/''
            @ emitted @ ''/*RC:E*/''
      | DropOwner owner \<Rightarrow>
          ''/*RC:B D '' @ show_int owner @ '' '' @ rc_partner_reason operations (position - 1) owner 1 @ ''*/''
            @ emitted @ ''/*RC:E*/''
      | _ \<Rightarrow> emitted)"

fun rc_definition_kind :: "'x owned_value_operation \<Rightarrow> string" where
  "rc_definition_kind (ParameterDefinition _) = ''parameter''"
| "rc_definition_kind (CallDefinition _) = ''call_result''"
| "rc_definition_kind (InvokeCallableDefinition _) = ''call_result''"
| "rc_definition_kind (ConstructRecordDefinition _) = ''constructed''"
| "rc_definition_kind (ConstructDefinition _) = ''constructed''"
| "rc_definition_kind (ConstructListDefinition _) = ''constructed''"
| "rc_definition_kind (CapturedCallableDefinition _) = ''constructed''"
| "rc_definition_kind (FreeCallableDefinition _) = ''constructed''"
| "rc_definition_kind (ListSuffixDefinition _) = ''list_suffix''"
| "rc_definition_kind (StringDefinition _) = ''string_literal''"
| "rc_definition_kind _ = ''other''"

section \<open>The patched emitter\<close>

text \<open>
  The loop over an operation list, before and after the patch, on the operations and what
  \<open>append_ownership_operation\<close> returns for each on the empty text; the first failure ends it.
\<close>

fun emit_operations :: "('x ownership_operation \<times> ('e + string)) list \<Rightarrow> 'e + string" where
  "emit_operations [] = Inr []"
| "emit_operations ((operation, result) # rest) =
     bindE result (\<lambda>emitted. bindE (emit_operations rest) (\<lambda>more. Inr (emitted @ more)))"

fun emit_marked_from :: "'x ownership_operation list \<Rightarrow> int \<Rightarrow> ('x ownership_operation \<times> ('e + string)) list \<Rightarrow> 'e + string" where
  "emit_marked_from operations position [] = Inr []"
| "emit_marked_from operations position ((operation, result) # rest) =
     bindE result (\<lambda>emitted. bindE (emit_marked_from operations (position + 1) rest) (\<lambda>more.
       Inr (rc_marked operations position operation emitted @ more)))"

definition emit_marked :: "('x ownership_operation \<times> ('e + string)) list \<Rightarrow> 'e + string" where
  "emit_marked results = emit_marked_from (map fst results) 0 results"

text \<open>A loop entry acquisition, and the binding of an owner that a definition or a control edge creates.\<close>

definition mark_loop_entry :: "int \<Rightarrow> borrow_source \<Rightarrow> string \<Rightarrow> string" where
  "mark_loop_entry owner source acquired =
     ''/*RC:B A loop_entry '' @ rc_source_name source @ '' solo '' @ show_int owner @ ''*/'' @ acquired @ ''/*RC:E*/''"

definition mark_created :: "int \<Rightarrow> string \<Rightarrow> string \<Rightarrow> string" where
  "mark_created owner kind binding = binding @ ''/*RC:K '' @ show_int owner @ '' '' @ kind @ ''*/''"

end
