(* ===== verification/Marked_Text.thy ===== *)
theory Marked_Text
  imports Instrument_RC_Props
begin

text \<open>
  Texts with marker comments, the format that \<^verbatim>\<open>patch_emit_markers.py\<close> makes the compiler write and
  \<^verbatim>\<open>instrument_rc.py\<close> reads: chunks of C with \<open>/*RC:...*/\<close> comments between them. Where the C itself opens no
  marker, scanning for markers finds exactly the markers.
\<close>

section \<open>Markers between chunks\<close>

definition mark :: "string \<Rightarrow> string" where
  "mark payload = ''/*RC:'' @ payload @ ''*/''"

fun interleave :: "(string \<times> string) list \<Rightarrow> string \<Rightarrow> string" where
  "interleave [] tail = tail"
| "interleave ((chunk, payload) # xs) tail = chunk @ mark payload @ interleave xs tail"

definition opens_marker :: "string \<Rightarrow> bool" where
  "opens_marker s \<longleftrightarrow> (\<exists>u v. s = u @ ''/*RC:'' @ v)"

lemma opens_marker_append: "\<not> opens_marker (a @ b) \<Longrightarrow> \<not> opens_marker a \<and> \<not> opens_marker b"
  unfolding opens_marker_def by (metis append.assoc)

lemma marker_spans_unique:
  assumes "spans s MARKER i j" and "spans s MARKER i j'"
  shows "j = j'"
proof -
  have *: "\<exists>k. spans s (Star (none_of ''*'')) (i + 5) k \<and> starts_at s ''*/'' k \<and> j = k + 2" if "spans s MARKER i j" for j
    using that by (auto simp: MARKER_def spans_Seq spans_Grp spans_lit eval_nat_numeral)
  from *[OF assms(1)] *[OF assms(2)] obtain k k' where k: "spans s (Star (none_of ''*'')) (i + 5) k" "starts_at s ''*/'' k" "j = k + 2"
    and k': "spans s (Star (none_of ''*'')) (i + 5) k'" "starts_at s ''*/'' k'" "j' = k' + 2" by blast
  have "k = k'"
    by (rule run_end_unique [OF k(1) k'(1)]) (use starts_at_nth [OF k(2), of 0] starts_at_nth [OF k'(2), of 0] in auto)
  with k k' show ?thesis by simp
qed

lemma marker_group:
  assumes "match_at MARKER s i = Some m"
  shows "grp s m 1 = cut s (i + 5) (m_end m - 2)"
proof -
  obtain j c where mem: "(j, c) \<in> set (matches MARKER s i [])" and m: "m = \<lparr>m_start = i, m_end = j, m_caps = c\<rparr>"
    using assms by (fastforce simp: match_at_def split: list.splits)
  obtain k d where k: "(k, d) \<in> set (iter True (length s - (i + 5)) (matches (none_of ''*'') s) (i + 5) [])"
    and c: "c = (1, i + 5, k) # d" "j = k + 2"
    using mem by (auto simp: MARKER_def matches_lit eval_nat_numeral split: if_splits)
  then show ?thesis by (simp add: m grp_def group_def)
qed

lemma spans_run:
  "i \<le> j \<Longrightarrow> (\<And>k. i \<le> k \<Longrightarrow> k < j \<Longrightarrow> k < length s \<and> p (s ! k)) \<Longrightarrow> spans s (Star (Cls p)) i j"
proof (induction i rule: inc_induct)
  case base
  show ?case by (rule spans.intros)
next
  case (step i)
  then have "spans s (Cls p) i (Suc i)" by (simp add: spans_Cls)
  moreover have "spans s (Star (Cls p)) (Suc i) j" using step by simp
  ultimately show ?case using spans.intros(7) by blast
qed

lemma starts_at_prefixed: "starts_at (a @ w @ b) w (length a)"
  by (simp add: starts_at_def)

lemma marker_spans:
  assumes "CHR ''*'' \<notin> set payload"
  shows "spans (a @ mark payload @ b) MARKER (length a) (length a + length (mark payload))"
proof -
  let ?s = "a @ mark payload @ b"
  have 1: "starts_at ?s ''/*RC:'' (length a)"
    using starts_at_prefixed [of a "''/*RC:''" "payload @ ''*/'' @ b"] by (simp add: mark_def)
  have 2: "starts_at ?s ''*/'' (length a + 5 + length payload)"
    using starts_at_prefixed [of "a @ ''/*RC:'' @ payload" "''*/''" b] by (simp add: mark_def eval_nat_numeral)
  have nth: "?s ! (length a + 5 + k) = payload ! k" if "k < length payload" for k
    using that by (simp add: mark_def nth_append eval_nat_numeral)
  have 3: "spans ?s (Star (none_of ''*'')) (length a + 5) (length a + 5 + length payload)"
  proof (rule spans_run)
    fix k
    assume "length a + 5 \<le> k" "k < length a + 5 + length payload"
    then have k: "k - (length a + 5) < length payload" and eq: "k = length a + 5 + (k - (length a + 5))" by auto
    have "?s ! k \<in> set payload" using nth [OF k] eq nth_mem [OF k] by metis
    with assms k show "k < length ?s \<and> ?s ! k \<notin> set ''*''" by (auto simp: mark_def)
  qed simp
  have len: "length a + length (mark payload) = length a + 5 + length payload + length ''*/''" by (simp add: mark_def)
  show ?thesis unfolding MARKER_def seqs.simps len spans_Seq spans_Grp
    by (intro exI [of _ "length a + 5"] exI [of _ "length a + 5 + length payload"] conjI)
      (use 1 2 3 in \<open>simp_all add: spans_lit del: list.size\<close>, simp_all add: eval_nat_numeral)
qed

lemma straddle:
  assumes "u @ rest = w @ v" and "length u < length w"
  shows "rest \<noteq> []" and "w ! length u = hd rest"
proof -
  show ne: "rest \<noteq> []" using assms by (metis append_Nil2 append_eq_append_conv_if length_append not_add_less1)
  have "(u @ rest) ! length u = (w @ v) ! length u" using assms(1) by simp
  with ne assms(2) show "w ! length u = hd rest" by (simp add: nth_append hd_conv_nth)
qed

lemma no_marker_in_chunk:
  assumes "\<not> opens_marker chunk" and "rest = [] \<or> hd rest = CHR ''/''"
    and "length a \<le> i" and "i < length a + length chunk"
  shows "\<not> spans (a @ chunk @ rest) MARKER i j"
proof
  let ?s = "a @ chunk @ rest" and ?k = "i - length a" and ?w = "''/*RC:''"
  assume "spans ?s MARKER i j"
  then have at: "starts_at ?s ?w i" by (auto simp: MARKER_def spans_Seq spans_lit)
  have k: "?k < length chunk" "i = length a + ?k" using assms(3,4) by auto
  have drop: "drop i ?s = drop ?k chunk @ rest" using assms(3) k(1) by simp
  from at have pre: "prefix ?w (drop ?k chunk @ rest)" unfolding starts_at_def drop [symmetric] starts_with_prefix by simp
  show False
  proof (cases "length ?w \<le> length (drop ?k chunk)")
    case True
    with pre have "prefix ?w (drop ?k chunk)" by (metis prefix_length_prefix prefixI)
    then have "\<exists>v. chunk = take ?k chunk @ ?w @ v" by (metis append_take_drop_id prefix_def)
    with assms(1) show False unfolding opens_marker_def by blast
  next
    case False
    let ?n = "length (drop ?k chunk)"
    have n: "0 < ?n" "?n < length ?w" using k(1) False by simp_all
    obtain v where "drop ?k chunk @ rest = ?w @ v" using pre by (auto simp only: prefix_def)
    from straddle [OF this n(2)] assms(2) have "?w ! ?n = CHR ''/''" by simp
    moreover have "?w ! i \<noteq> CHR ''/''" if "0 < i" "i < length ?w" for i
      using that by (auto simp: less_Suc_eq nth_Cons split: nat.splits)
    ultimately show False using n by blast
  qed
qed

lemma search_marker:
  assumes "\<not> opens_marker chunk" and "CHR ''*'' \<notin> set payload"
  shows "\<exists>m. search MARKER (a @ chunk @ mark payload @ b) (length a) = Some m
    \<and> m_start m = length a + length chunk \<and> m_end m = length a + length chunk + length (mark payload)
    \<and> grp (a @ chunk @ mark payload @ b) m 1 = payload"
proof -
  let ?s = "a @ chunk @ mark payload @ b" and ?i = "length a + length chunk"
  have here: "spans ?s MARKER ?i (?i + length (mark payload))"
    using marker_spans [OF assms(2), of "a @ chunk" b] by (simp add: add.assoc)
  have "search MARKER ?s (length a) \<noteq> None"
    using search_None [of MARKER ?s "length a" ?i] match_at_None_iff [of ?i ?s MARKER] here by auto
  then obtain m where m: "search MARKER ?s (length a) = Some m" by auto
  note found = search_Some [OF m]
  have sp: "spans ?s MARKER (m_start m) (m_end m)"
    using found match_at_Some [of MARKER ?s "m_start m" m] by auto
  have "\<not> m_start m < ?i"
    using no_marker_in_chunk [OF assms(1), of "mark payload @ b" a "m_start m" "m_end m"] sp found by (auto simp: mark_def)
  moreover have "\<not> ?i < m_start m"
    using found match_at_None_iff [of ?i ?s MARKER] here by auto
  ultimately have start: "m_start m = ?i" by simp
  with sp here have fin: "m_end m = ?i + length (mark payload)" using marker_spans_unique by metis
  have "grp ?s m 1 = cut ?s (?i + 5) (?i + 5 + length payload)"
  proof -
    have "m_end m - 2 = ?i + 5 + length payload" using fin by (simp add: mark_def)
    then show ?thesis using marker_group [of ?s ?i m] found start by metis
  qed
  also have "\<dots> = payload" by (simp add: cut_def mark_def eval_nat_numeral)
  finally show ?thesis using m start fin by blast
qed

lemma search_no_marker:
  assumes "\<not> opens_marker tail"
  shows "search MARKER (a @ tail) (length a) = None"
proof (rule ccontr)
  assume "search MARKER (a @ tail) (length a) \<noteq> None"
  then obtain m where m: "search MARKER (a @ tail) (length a) = Some m" by auto
  note found = search_Some [OF m]
  have "0 < min_len MARKER" by (simp add: MARKER_def)
  with found have "m_start m < length (a @ tail)" by linarith
  moreover have "spans (a @ tail) MARKER (m_start m) (m_end m)"
    using found match_at_Some [of MARKER "a @ tail" "m_start m" m] by auto
  ultimately show False using no_marker_in_chunk [OF assms, of "[]" a "m_start m" "m_end m"] found by auto
qed

text \<open>Every chunk of a marked text, and its tail.\<close>

definition chunks_ok :: "(string \<times> string) list \<Rightarrow> string \<Rightarrow> bool" where
  "chunks_ok xs tail \<longleftrightarrow> \<not> opens_marker tail \<and> (\<forall>(chunk, payload) \<in> set xs. \<not> opens_marker chunk \<and> CHR ''*'' \<notin> set payload)"

lemma chunks_ok_simps [simp]:
  "chunks_ok [] tail \<longleftrightarrow> \<not> opens_marker tail"
  "chunks_ok ((chunk, payload) # xs) tail \<longleftrightarrow>
     \<not> opens_marker chunk \<and> CHR ''*'' \<notin> set payload \<and> chunks_ok xs tail"
  by (auto simp: chunks_ok_def)

lemma mark_nonempty: "0 < length (mark payload)"
  by (simp add: mark_def)

text \<open>The scan of a marked text, one marker at a time.\<close>

lemma finditer_marked:
  assumes "chunks_ok ((chunk, payload) # xs) tail"
  shows "\<exists>m. finditer MARKER (a @ interleave ((chunk, payload) # xs) tail) (length a)
       = m # finditer MARKER ((a @ chunk @ mark payload) @ interleave xs tail) (length (a @ chunk @ mark payload))
     \<and> m_start m = length (a @ chunk) \<and> m_end m = length (a @ chunk @ mark payload)
     \<and> grp (a @ interleave ((chunk, payload) # xs) tail) m 1 = payload"
proof -
  let ?s = "a @ chunk @ mark payload @ interleave xs tail"
  from assms obtain m where m: "search MARKER ?s (length a) = Some m" "m_start m = length a + length chunk"
      "m_end m = length a + length chunk + length (mark payload)" "grp ?s m 1 = payload"
    using search_marker [of chunk payload a "interleave xs tail"] by auto
  have "finditer MARKER ?s (length a) = m # finditer MARKER ?s (length a + length chunk + length (mark payload))"
    using m mark_nonempty [of payload] by (subst finditer.simps) auto
  with m show ?thesis by (intro exI [of _ m]) (simp add: add.assoc)
qed

lemma finditer_tail: "\<not> opens_marker tail \<Longrightarrow> finditer MARKER (a @ tail) (length a) = []"
  by (subst finditer.simps) (simp add: search_no_marker)

lemma marked_strip_from:
  assumes "chunks_ok xs tail"
  shows "weave (a @ interleave xs tail) (length a)
      (map (\<lambda>m. (m_start m, m_end m, [])) (finditer MARKER (a @ interleave xs tail) (length a)))
    = concat (map fst xs) @ tail"
  using assms
proof (induction xs arbitrary: a)
  case (Cons x xs)
  obtain chunk payload where x: "x = (chunk, payload)" by force
  let ?b = "a @ chunk @ mark payload" and ?s = "a @ interleave (x # xs) tail"
  have s: "?s = ?b @ interleave xs tail" by (simp add: x)
  from finditer_marked [of chunk payload xs tail a] Cons.prems obtain m where
    m: "finditer MARKER ?s (length a) = m # finditer MARKER (?b @ interleave xs tail) (length ?b)"
      "m_start m = length (a @ chunk)" "m_end m = length ?b" unfolding x by blast
  have "cut ?s (length a) (length (a @ chunk)) = chunk" by (simp add: x cut_def)
  then show ?case
    using m Cons.IH [of ?b] Cons.prems by (simp add: s x)
qed (simp add: finditer_tail)

lemma strip_interleave: "chunks_ok xs tail \<Longrightarrow> strip_markers (interleave xs tail) = concat (map fst xs) @ tail"
  using marked_strip_from [of xs tail "[]"] by (simp add: re_sub_def)

lemma marked_groups:
  assumes "chunks_ok xs tail" and "s = a @ interleave xs tail"
  shows "map (\<lambda>m. grp s m 1) (finditer MARKER s (length a)) = map snd xs"
  using assms
proof (induction xs arbitrary: a)
  case (Cons x xs)
  obtain chunk payload where x: "x = (chunk, payload)" by force
  from finditer_marked [of chunk payload xs tail a] Cons.prems obtain m where
    m: "finditer MARKER s (length a) = m # finditer MARKER s (length (a @ chunk @ mark payload))" "grp s m 1 = payload"
    unfolding x by auto
  have "map (\<lambda>m. grp s m 1) (finditer MARKER s (length (a @ chunk @ mark payload))) = map snd xs"
    by (rule Cons.IH) (use Cons.prems in \<open>simp_all add: x\<close>)
  with m show ?case by (simp add: x)
qed (simp add: finditer_tail)

text \<open>The regions of a marked text, from its chunks and the fields of its markers.\<close>

fun pieces_of :: "string \<Rightarrow> (string, string) dict \<times> (string, string) dict \<Rightarrow> (string \<times> string list) list \<Rightarrow> string
    \<Rightarrow> string \<Rightarrow> (string \<times> string) list result" where
  "pieces_of name owners [] tail category = Inr [(tail, category)]"
| "pieces_of name owners ((chunk, parts) # xs) tail category =
     bindE (marker_category name owners parts category) (\<lambda>category'.
       bindE (pieces_of name owners xs tail category') (\<lambda>rest. Inr ((chunk, category) # rest)))"

lemma region_pieces_marked:
  assumes "chunks_ok xs tail" and "s = a @ interleave xs tail"
  shows "region_pieces s name owners (finditer MARKER s (length a)) (length a) category
    = pieces_of name owners (map (\<lambda>(chunk, payload). (chunk, split_ws payload)) xs) tail category"
  using assms
proof (induction xs arbitrary: a category)
  case (Cons x xs)
  obtain chunk payload where x: "x = (chunk, payload)" by force
  let ?b = "a @ chunk @ mark payload"
  from finditer_marked [of chunk payload xs tail a] Cons.prems obtain m where
    m: "finditer MARKER s (length a) = m # finditer MARKER s (length ?b)" "grp s m 1 = payload"
      "m_start m = length (a @ chunk)" "m_end m = length ?b"
    unfolding x by auto
  have c: "cut s (length a) (length (a @ chunk)) = chunk" using Cons.prems(2) by (simp add: x cut_def)
  have IH: "region_pieces s name owners (finditer MARKER s (length ?b)) (length ?b) category'
      = pieces_of name owners (map (\<lambda>(chunk, payload). (chunk, split_ws payload)) xs) tail category'" for category'
    by (rule Cons.IH) (use Cons.prems in \<open>simp_all add: x\<close>)
  show ?case using m c IH by (simp add: x)
qed (simp add: finditer_tail)

lemma region_tags_marked:
  assumes "chunks_ok xs tail"
  shows "region_tags (interleave xs tail) name =
    bindE (foldE note_owner (map (\<lambda>x. split_ws (snd x)) xs) ([], [])) (\<lambda>owners.
      pieces_of name owners (map (\<lambda>(chunk, payload). (chunk, split_ws payload)) xs) tail ''unmarked'')"
proof -
  let ?s = "interleave xs tail"
  have g: "map (\<lambda>m. grp ?s m 1) (find_matches MARKER ?s) = map snd xs"
    using marked_groups [OF assms, of ?s "[]"] by simp
  have "foldE (\<lambda>m. note_owner (split_ws (grp ?s m 1))) (find_matches MARKER ?s) z
      = foldE (\<lambda>p. note_owner (split_ws p)) (map (\<lambda>m. grp ?s m 1) (find_matches MARKER ?s)) z" for z
    by (simp only: foldE_map)
  also have "\<dots> z = foldE note_owner (map (\<lambda>x. split_ws (snd x)) xs) z" for z
    by (simp only: g foldE_map)
  finally have "foldE (\<lambda>m. note_owner (split_ws (grp ?s m 1))) (find_matches MARKER ?s) z
      = foldE note_owner (map (\<lambda>x. split_ws (snd x)) xs) z" for z .
  then show ?thesis using region_pieces_marked [OF assms, of ?s "[]"] by (simp add: region_tags_def Let_def)
qed

end
