(* ===== verification/Emit_Markers_Props.thy ===== *)
theory Emit_Markers_Props
  imports Emit_Markers Marked_Text
begin

text \<open>
  What the marker patch guarantees: the script replaces one occurrence of each anchor or changes
  nothing; the marker functions read the reason and the pairing of an acquisition from its
  neighbours as their comments say; stripping the markers gives the unpatched output; and
  \<open>region_tags\<close> reads back from the markers what the marker functions wrote.
\<close>

section \<open>Patching\<close>

lemma count_from_absent: "c \<notin> set s \<Longrightarrow> c \<in> set p \<Longrightarrow> count_from s p i = 0"
proof (induction s p i rule: count_from.induct)
  case (1 s p i)
  have "\<not> starts_at s p i"
  proof
    assume "starts_at s p i"
    then have "set p \<subseteq> set s" unfolding starts_at_def by (metis set_drop_subset set_take_subset subset_trans)
    with "1.prems" show False by blast
  qed
  with 1 show ?case by (subst count_from.simps) simp
qed

lemma count_from_occurs: "0 < count_from s p i \<Longrightarrow> p \<noteq> [] \<Longrightarrow> \<exists>j. i \<le> j \<and> j \<le> length s \<and> starts_at s p j"
proof (induction s p i rule: count_from.induct)
  case (1 s p i)
  from "1.prems"(1) have i: "i < length s" by (subst (asm) count_from.simps) (simp split: if_splits)
  show ?case
  proof (cases "starts_at s p i")
    case True
    with i show ?thesis by (intro exI [of _ i]) simp
  next
    case False
    with "1.prems"(1) i have "0 < count_from s p (Suc i)" by (subst (asm) count_from.simps) simp
    with "1.IH"(2) False i "1.prems"(2) show ?thesis by (metis Suc_leD not_le)
  qed
qed

lemma replace_first_split:
  assumes "count_sub s old = 1" and "old \<noteq> []"
  shows "\<exists>u v. s = u @ old @ v \<and> replace_first s old new = u @ new @ v \<and> \<not> (\<exists>k < length u. starts_at s old k)"
proof -
  obtain j0 where "j0 \<le> length s" "starts_at s old j0" using count_from_occurs [of s old 0] assms by auto
  then have "find_from s old 0 \<noteq> None" using find_from_None [of s old 0 j0] by auto
  then obtain j where j: "find_from s old 0 = Some j" by auto
  note f = find_from_Some [OF j]
  have "drop j s = old @ drop (j + length old) s"
    using f by (metis append_take_drop_id drop_drop add.commute starts_at_def)
  then have "s = take j s @ old @ drop (j + length old) s" by (metis append_take_drop_id)
  then show ?thesis
    using f by (intro exI [of _ "take j s"] exI [of _ "drop (j + length old) s"])
      (auto simp: replace_first_def j)
qed

text \<open>Each step of a successful patch replaces one anchor.\<close>

inductive patched_by :: "(string \<times> string) list \<Rightarrow> string \<Rightarrow> string \<Rightarrow> bool" where
  "patched_by [] s s"
| "s = u @ old @ v \<Longrightarrow> count_sub s old = 1 \<Longrightarrow> patched_by edits (u @ new @ v) t \<Longrightarrow> patched_by ((old, new) # edits) s t"

lemma apply_edit_Inr: "apply_edit (old, new) s = Inr t \<longleftrightarrow> count_sub s old = 1 \<and> t = replace_first s old new"
  by (auto simp: apply_edit_def)

lemma foldE_edits:
  assumes "\<forall>(old, new) \<in> set edits. old \<noteq> []" and "foldE apply_edit edits s = Inr t"
  shows "patched_by edits s t"
  using assms
proof (induction edits arbitrary: s)
  case Nil
  then show ?case by (simp add: patched_by.intros)
next
  case (Cons e edits)
  obtain old new where e: "e = (old, new)" by force
  with Cons.prems have one: "count_sub s old = 1" and rest: "foldE apply_edit edits (replace_first s old new) = Inr t"
    by (auto simp: bindE_Inr_iff apply_edit_Inr)
  from Cons.prems(1) e have "old \<noteq> []" by auto
  with one obtain u v where "s = u @ old @ v" "replace_first s old new = u @ new @ v" using replace_first_split by blast
  with Cons.IH [OF _ rest] Cons.prems(1) one show ?case unfolding e by (metis list.set_intros(2) patched_by.intros(2))
qed

lemmas edit_defs = import_edit_def operations_edit_def loop_entry_edit_def definition_edit_def input_owner_edit_def
  loop_header_edit_def join_output_edit_def functions_edit_def

lemma EDITS_anchors: "\<forall>(old, new) \<in> set EDITS. old \<noteq> []"
  by (simp add: EDITS_def edit_defs)

lemma patch_patched: "patch s = Inr t \<Longrightarrow> patched_by EDITS s t"
  unfolding patch_def by (rule foldE_edits [OF EDITS_anchors])

lemma import_anchor: "tab \<in> set (fst import_edit)"
  by (simp add: import_edit_def)

lemma patch_no_tab:
  assumes "tab \<notin> set source"
  shows "patch source = Inl (SystemExit (''error: patch_emit_markers: anchor found 0 times (expected 1):''
    @ [newline] @ fst import_edit))"
proof -
  have "count_sub source (fst import_edit) = 0" by (rule count_from_absent [OF assms import_anchor])
  moreover have "show_nat 0 = ''0''" by code_simp
  ultimately show ?thesis by (simp add: patch_def EDITS_def apply_edit_def case_prod_beta)
qed

section \<open>Neighbours\<close>

text \<open>
  The operations a search steps over, the definitions among them, and the relation both searches decide:
  only such operations, with at most one definition, lie strictly between two positions.
\<close>

fun passable :: "'x ownership_operation \<Rightarrow> bool" where
  "passable (ExecuteJoin _) = False"
| "passable (ExecuteLoop _) = False"
| "passable _ = True"

fun is_definition :: "'x ownership_operation \<Rightarrow> bool" where
  "is_definition (DefineValue _) = True"
| "is_definition _ = False"

definition near :: "nat \<Rightarrow> 'x ownership_operation list \<Rightarrow> bool" where
  "near n ops \<longleftrightarrow> list_all passable ops \<and> length (filter is_definition ops) \<le> n"

definition linked :: "'x ownership_operation list \<Rightarrow> nat \<Rightarrow> nat \<Rightarrow> bool" where
  "linked ops p j \<longleftrightarrow> p < j \<and> near 1 (cut ops (Suc p) j)"

fun acquires_from :: "int \<Rightarrow> 'x ownership_operation \<Rightarrow> bool" where
  "acquires_from w (AcquireOwner _ b) = (b_source b = OwnerBorrow w)"
| "acquires_from w _ = False"

fun drops :: "int \<Rightarrow> 'x ownership_operation \<Rightarrow> bool" where
  "drops w (DropOwner v) = (v = w)"
| "drops w _ = False"

lemma get_at_nat: "get_at xs (int i) = (if i < length xs then Some (xs ! i) else None)"
  by (simp add: get_at_def)

lemma cut_Cons: "i < j \<Longrightarrow> i < length xs \<Longrightarrow> cut xs i j = xs ! i # cut xs (Suc i) j"
  using cut_split [of i "Suc i" j xs] by (simp add: cut_Suc)

lemma cut_snoc: "i \<le> j \<Longrightarrow> j < length xs \<Longrightarrow> cut xs i (Suc j) = cut xs i j @ [xs ! j]"
  using cut_split [of i j "Suc j" xs] by (simp add: cut_Suc)

lemma ex_from: "(\<exists>j. i \<le> j \<and> Q j) \<longleftrightarrow> Q i \<or> (\<exists>j. Suc i \<le> j \<and> Q j)"
  by (metis Suc_leD le_refl not_less_eq_eq order_antisym)

lemma drops_after_iff:
  "rc_drops_owner_after ops (int i) w (int n) \<longleftrightarrow>
     (\<exists>j. i \<le> j \<and> j < length ops \<and> drops w (ops ! j) \<and> near n (cut ops i j))"
proof (induction "length ops - i" arbitrary: i n)
  case 0
  then show ?case by (subst rc_drops_owner_after.simps) (auto simp: get_at_nat)
next
  case (Suc l)
  then have i: "i < length ops" and l: "l = length ops - Suc i" by auto
  have split: "(\<exists>j. i \<le> j \<and> j < length ops \<and> drops w (ops ! j) \<and> near n (cut ops i j)) \<longleftrightarrow>
      drops w (ops ! i) \<or> (\<exists>j. Suc i \<le> j \<and> j < length ops \<and> drops w (ops ! j) \<and> near n (ops ! i # cut ops (Suc i) j))"
    using ex_from [of i "\<lambda>j. j < length ops \<and> drops w (ops ! j) \<and> near n (cut ops i j)"] i cut_Cons [of i _ ops]
    by (simp add: near_def Suc_le_eq cong: conj_cong)
  have IH: "rc_drops_owner_after ops (int i + 1) w (int n') \<longleftrightarrow>
      (\<exists>j. Suc i \<le> j \<and> j < length ops \<and> drops w (ops ! j) \<and> near n' (cut ops (Suc i) j))" for n'
    using Suc.hyps(1) [OF l, of n'] by (simp add: add.commute)
  show ?case
  proof (cases "ops ! i")
    case (DefineValue d)
    show ?thesis
    proof (cases n)
      case 0
      with DefineValue show ?thesis unfolding split
        by (subst rc_drops_owner_after.simps) (simp add: get_at_nat i near_def)
    next
      case (Suc n')
      with DefineValue IH [of n'] show ?thesis unfolding split
        by (subst rc_drops_owner_after.simps) (simp add: get_at_nat i near_def)
    qed
  qed (unfold split, (subst rc_drops_owner_after.simps, use IH [of n] in \<open>simp add: get_at_nat i near_def\<close>)+)
qed

fun reason_of :: "'x ownership_operation list \<Rightarrow> nat \<Rightarrow> string" where
  "reason_of ops p = (case ops ! p of AcquireOwner _ b \<Rightarrow> rc_reason ops (int p) (b_value b) | _ \<Rightarrow> [])"

text \<open>The nearest acquisition from an owner before a position, with its distance bound.\<close>

definition nearest :: "'x ownership_operation list \<Rightarrow> nat \<Rightarrow> int \<Rightarrow> nat \<Rightarrow> nat \<Rightarrow> bool" where
  "nearest ops j w n p \<longleftrightarrow> p < j \<and> acquires_from w (ops ! p) \<and> near n (cut ops (Suc p) j)
     \<and> (\<forall>q. p < q \<and> q < j \<longrightarrow> \<not> acquires_from w (ops ! q))"

lemma near_snoc:
  "near n (xs @ [x]) \<longleftrightarrow> passable x \<and> (if is_definition x then 0 < n \<and> near (n - 1) xs else near n xs)"
  by (cases n) (auto simp: near_def)

lemma nearest_Suc:
  assumes "\<not> acquires_from w (ops ! j)" and "j < length ops"
  shows "nearest ops (Suc j) w n p \<longleftrightarrow> passable (ops ! j)
    \<and> (if is_definition (ops ! j) then 0 < n \<and> nearest ops j w (n - 1) p else nearest ops j w n p)"
proof (cases "p < j")
  case True
  then have "cut ops (Suc p) (Suc j) = cut ops (Suc p) j @ [ops ! j]" using assms(2) by (intro cut_snoc) auto
  with True assms(1) show ?thesis by (auto simp: nearest_def near_snoc less_Suc_eq)
next
  case False
  with assms(1) show ?thesis by (cases "p = j") (auto simp: nearest_def)
qed

lemma partner_step:
  assumes "j < length ops" and "\<not> acquires_from w (ops ! j)"
  shows "rc_partner_reason ops (int (Suc j) - 1) w (int n) =
    (if passable (ops ! j) \<and> (is_definition (ops ! j) \<longrightarrow> 0 < n)
     then rc_partner_reason ops (int j - 1) w (int (if is_definition (ops ! j) then n - 1 else n)) else ''none'')"
  using assms
  by (subst rc_partner_reason.simps)
    (auto simp: get_at_nat of_nat_diff split: ownership_operation.splits borrow_source.splits)

lemma partner_reason_cases:
  assumes "j \<le> length ops"
  shows "(\<exists>p. nearest ops j w n p \<and> rc_partner_reason ops (int j - 1) w (int n) = reason_of ops p)
    \<or> (\<forall>p. \<not> nearest ops j w n p) \<and> rc_partner_reason ops (int j - 1) w (int n) = ''none''"
  using assms
proof (induction j arbitrary: n)
  case 0
  have "rc_partner_reason ops (int 0 - 1) w (int n) = ''none''" by (subst rc_partner_reason.simps) simp
  then show ?case by (simp add: nearest_def)
next
  case (Suc j)
  then have j: "j < length ops" and IH: "\<And>n. (\<exists>p. nearest ops j w n p \<and> rc_partner_reason ops (int j - 1) w (int n) = reason_of ops p)
    \<or> (\<forall>p. \<not> nearest ops j w n p) \<and> rc_partner_reason ops (int j - 1) w (int n) = ''none''" by auto
  show ?case
  proof (cases "acquires_from w (ops ! j)")
    case True
    then obtain v b where op: "ops ! j = AcquireOwner v b" "b_source b = OwnerBorrow w" by (cases "ops ! j") auto
    then have "rc_partner_reason ops (int (Suc j) - 1) w (int n) = reason_of ops j"
      using j by (subst rc_partner_reason.simps) (simp add: get_at_nat)
    moreover have "nearest ops (Suc j) w n j" using True by (auto simp: nearest_def near_def)
    ultimately show ?thesis by blast
  next
    case False
    show ?thesis unfolding nearest_Suc [OF False j] partner_step [OF j False]
      using IH [of n] IH [of "n - 1"] by (cases n) (simp_all del: reason_of.simps)
  qed
qed

lemma nearest_exists:
  assumes "p < j" and "acquires_from w (ops ! p)" and "near n (cut ops (Suc p) j)"
  shows "\<exists>q. nearest ops j w n q"
proof -
  define q where "q = Max {q. p \<le> q \<and> q < j \<and> acquires_from w (ops ! q)}"
  let ?S = "{q. p \<le> q \<and> q < j \<and> acquires_from w (ops ! q)}"
  have fin: "finite ?S" and ne: "?S \<noteq> {}" using assms(1,2) by (auto intro: finite_subset [of _ "{..<j}"])
  have q: "p \<le> q" "q < j" "acquires_from w (ops ! q)" using Max_in [OF fin ne] by (auto simp: q_def)
  have later: "\<not> acquires_from w (ops ! r)" if "q < r" "r < j" for r
  proof
    assume "acquires_from w (ops ! r)"
    with that q(1) have "r \<in> ?S" by simp
    with Max_ge [OF fin this] that(1) show False by (simp add: q_def)
  qed
  have "cut ops (Suc p) j = cut ops (Suc p) (Suc q) @ cut ops (Suc q) j"
    using q by (intro cut_split [symmetric]) auto
  then have "near n (cut ops (Suc q) j)" using assms(3) by (simp add: near_def)
  with q later show ?thesis by (auto simp: nearest_def)
qed

lemma reason_not_none: "rc_reason ops p v \<noteq> ''none''"
proof -
  have "rc_reason_before_definition ops i \<noteq> ''none''" for i
  proof (induction ops i rule: rc_reason_before_definition.induct)
    case (1 ops i)
    then show ?case
      by (subst rc_reason_before_definition.simps)
        (auto split: option.splits ownership_operation.splits owned_value_operation.splits)
  qed
  then show ?thesis by (simp add: rc_reason_def Let_def)
qed

text \<open>The reason of an acquisition, read off the list without an index.\<close>

fun owner_operation :: "'x ownership_operation \<Rightarrow> bool" where
  "owner_operation (AcquireOwner _ _) = True"
| "owner_operation (DropOwner _) = True"
| "owner_operation _ = False"

fun definition_reason :: "'x owned_value_operation \<Rightarrow> string" where
  "definition_reason (CallDefinition _) = ''call''"
| "definition_reason (InvokeCallableDefinition _) = ''call''"
| "definition_reason (ConstructRecordDefinition _) = ''stored''"
| "definition_reason (ConstructDefinition _) = ''stored''"
| "definition_reason (ConstructListDefinition _) = ''stored''"
| "definition_reason (CapturedCallableDefinition _) = ''stored''"
| "definition_reason _ = ''other_definition''"

definition next_reason :: "'x ownership_operation list \<Rightarrow> string" where
  "next_reason ops =
     (case dropWhile owner_operation ops of
        [] \<Rightarrow> ''block_end''
      | DefineValue d # _ \<Rightarrow> definition_reason (d_operation d)
      | _ \<Rightarrow> ''before_control'')"

lemma reason_before_next: "rc_reason_before_definition ops (int i) = next_reason (drop i ops)"
proof (induction "length ops - i" arbitrary: i)
  case 0
  then show ?case by (subst rc_reason_before_definition.simps) (simp add: get_at_nat next_reason_def)
next
  case (Suc l)
  then have i: "i < length ops" and l: "l = length ops - Suc i" by auto
  have d: "drop i ops = ops ! i # drop (Suc i) ops" using i by (simp add: Cons_nth_drop_Suc)
  have IH: "rc_reason_before_definition ops (int i + 1) = next_reason (drop (Suc i) ops)"
    using Suc.hyps(1) [OF l] by (simp add: add.commute)
  show ?case
  proof (cases "ops ! i")
    case (DefineValue df)
    then show ?thesis
      by (subst rc_reason_before_definition.simps)
        (cases "d_operation df"; simp add: get_at_nat i d next_reason_def)
  qed (subst rc_reason_before_definition.simps, use IH in \<open>simp add: get_at_nat i d next_reason_def\<close>)+
qed

section \<open>Markings of a text\<close>

text \<open>\<open>marking t s\<close>: \<open>t\<close> is \<open>s\<close> with marker comments inserted.\<close>

inductive marking :: "string \<Rightarrow> string \<Rightarrow> bool" where
  marking_Nil: "marking [] []"
| marking_char: "marking t s \<Longrightarrow> marking (c # t) (c # s)"
| marking_mark: "marking t s \<Longrightarrow> CHR ''*'' \<notin> set payload \<Longrightarrow> marking (mark payload @ t) s"

lemma marking_refl: "marking s s"
  by (induction s) (auto intro: marking.intros)

lemma marking_append: "marking t s \<Longrightarrow> marking t' s' \<Longrightarrow> marking (t @ t') (s @ s')"
  by (induction rule: marking.induct) (auto intro: marking.intros)

lemma marking_interleave:
  "marking t s \<Longrightarrow> \<exists>xs tail. t = interleave xs tail \<and> s = concat (map fst xs) @ tail
     \<and> (\<forall>(chunk, payload) \<in> set xs. CHR ''*'' \<notin> set payload)"
proof (induction rule: marking.induct)
  case marking_Nil
  show ?case by (rule exI [of _ "[]"]) auto
next
  case (marking_char t s c)
  then obtain xs tail where x: "t = interleave xs tail" "s = concat (map fst xs) @ tail"
    "\<forall>(chunk, payload) \<in> set xs. CHR ''*'' \<notin> set payload" by blast
  show ?case
  proof (cases xs)
    case Nil
    with x show ?thesis by (intro exI [of _ "[]"] exI [of _ "c # tail"]) simp
  next
    case (Cons y ys)
    with x show ?thesis
      by (intro exI [of _ "(c # fst y, snd y) # ys"] exI [of _ tail]) (auto simp: case_prod_beta, metis interleave.simps(2) prod.collapse)
  qed
next
  case (marking_mark t s payload)
  then obtain xs tail where "t = interleave xs tail" "s = concat (map fst xs) @ tail"
    "\<forall>(chunk, payload) \<in> set xs. CHR ''*'' \<notin> set payload" by blast
  with marking_mark(2) show ?case by (intro exI [of _ "([], payload) # xs"] exI [of _ tail]) simp
qed

lemma no_comment_chunks:
  "\<not> opens_marker (concat (map fst xs) @ tail) \<Longrightarrow> \<forall>(chunk, payload) \<in> set xs. CHR ''*'' \<notin> set payload \<Longrightarrow> chunks_ok xs tail"
proof (induction xs)
  case (Cons x xs)
  then show ?case using opens_marker_append [of "fst x" "concat (map fst xs) @ tail"] by (cases x) auto
qed simp

lemma marking_strip: "marking t s \<Longrightarrow> \<not> opens_marker s \<Longrightarrow> strip_markers t = s"
  using marking_interleave [of t s] no_comment_chunks strip_interleave by blast

section \<open>Words of a marker\<close>

definition marker_word :: "string \<Rightarrow> bool" where
  "marker_word w \<longleftrightarrow> w \<noteq> [] \<and> list_all (\<lambda>c. \<not> is_space c \<and> c \<noteq> CHR ''*'') w"

lemma split_ws_join: "list_all marker_word ws \<Longrightarrow> split_ws (join '' '' ws) = ws"
  by (rule split_ws_sep) (auto simp: marker_word_def list_all_iff char_class_defs)

lemma join_no_star: "list_all marker_word ws \<Longrightarrow> CHR ''*'' \<notin> set (join '' '' ws)"
  by (induction ws rule: induct_list012) (auto simp: marker_word_def list_all_iff)

definition REASONS :: "string list" where
  "REASONS = [''projection'', ''call'', ''stored'', ''other_definition'', ''before_control'', ''block_end'']"

lemma next_reason_in: "next_reason ops \<in> set REASONS"
proof -
  have "definition_reason v \<in> set REASONS" for v :: "'a owned_value_operation"
    by (cases v) (auto simp: REASONS_def)
  then show ?thesis
    by (auto simp: next_reason_def split: list.splits ownership_operation.splits) (auto simp: REASONS_def)
qed

lemma reason_in:
  assumes "0 \<le> position"
  shows "rc_reason ops position v \<in> set REASONS"
proof -
  have "rc_reason_before_definition ops (position + 1) \<in> set REASONS"
    using reason_before_next [of ops "nat (position + 1)"] next_reason_in assms by simp
  moreover have "''projection'' \<in> set REASONS" by (simp add: REASONS_def)
  ultimately show ?thesis by (simp add: rc_reason_def Let_def)
qed

lemma reason_of_in: "acquires_from w (ops ! p) \<Longrightarrow> reason_of ops p \<in> set REASONS"
  by (cases "ops ! p") (simp_all add: reason_in)

lemma partner_in: "j \<le> length ops \<Longrightarrow> rc_partner_reason ops (int j - 1) w 1 \<in> insert ''none'' (set REASONS)"
  using partner_reason_cases [of j ops w 1] reason_of_in [of w ops]
  by (auto simp: nearest_def simp del: reason_of.simps)

lemma words_ok:
  "w \<in> insert ''none'' (set REASONS) \<Longrightarrow> marker_word w"
  "marker_word (rc_source_name source)"
  "marker_word (rc_acquire_pair ops position source)"
  "marker_word (show_int n)"
  "marker_word ''A''" "marker_word ''B''" "marker_word ''D''" "marker_word ''E''" "marker_word ''K''"
proof -
  show "w \<in> insert ''none'' (set REASONS) \<Longrightarrow> marker_word w"
    by (auto simp: REASONS_def marker_word_def char_class_defs)
  show "marker_word (rc_source_name source)"
    by (cases source) (simp_all add: marker_word_def char_class_defs)
  show "marker_word (rc_acquire_pair ops position source)"
    by (simp add: rc_acquire_pair_def marker_word_def char_class_defs split: borrow_source.splits)
  show "marker_word (show_int n)"
    using show_nat_digits is_digit_not_space
    by (fastforce simp: show_int_def marker_word_def list_all_iff char_class_defs)
qed (simp_all add: marker_word_def char_class_defs)

section \<open>The patched emitter writes a marking\<close>

lemma marking_region:
  assumes "marking t s" and "CHR ''*'' \<notin> set payload" and "CHR ''*'' \<notin> set payload'"
  shows "marking (mark payload @ t @ mark payload') s"
  using marking_mark [OF marking_append [OF assms(1) marking_mark [OF marking_Nil assms(3)]] assms(2)] by simp

lemma rc_marked_marking:
  assumes "marking t s" and "p \<le> length ops"
  shows "marking (rc_marked ops (int p) operation t) s"
proof (cases operation)
  case (AcquireOwner w b)
  let ?ws = "[''B'', ''A'', rc_reason ops (int p) (b_value b), rc_source_name (b_source b),
    rc_acquire_pair ops (int p) (b_source b), show_int w]"
  have "list_all marker_word ?ws" using words_ok reason_in [of "int p" ops "b_value b"] by simp
  then have "marking (mark (join '' '' ?ws) @ t @ mark ''E'') s"
    by (intro marking_region assms(1) join_no_star) simp_all
  then show ?thesis by (simp add: rc_marked_def AcquireOwner mark_def)
next
  case (DropOwner w)
  let ?ws = "[''B'', ''D'', show_int w, rc_partner_reason ops (int p - 1) w 1]"
  have "list_all marker_word ?ws" using words_ok partner_in [OF assms(2)] by simp
  then have "marking (mark (join '' '' ?ws) @ t @ mark ''E'') s"
    by (intro marking_region assms(1) join_no_star) simp_all
  then show ?thesis by (simp add: rc_marked_def DropOwner mark_def)
qed (use assms in \<open>simp_all add: rc_marked_def\<close>)

text \<open>
  What an emitter with the patched places writes, as a tree: text of its own, a failure, an operation list with the
  fragments of each operation (a definition, a join or a loop may hold further lists), the acquisition at a loop entry,
  the binding of an owner by a definition, and that of an owner by a control edge.
\<close>

datatype edge = InputOwner | LoopHeader | JoinOutput

fun edge_kind :: "edge \<Rightarrow> string" where
  "edge_kind InputOwner = ''input_owner''"
| "edge_kind LoopHeader = ''loop_header''"
| "edge_kind JoinOutput = ''join_output''"

datatype ('x, 'e) fragment =
    Verbatim string
  | Failure 'e
  | OperationList "('x ownership_operation \<times> ('x, 'e) fragment list) list"
  | LoopEntry int borrow_source "('x, 'e) fragment list"
  | DefinedOwner int "'x owned_value_operation" "('x, 'e) fragment list"
  | EdgeOwner int edge "('x, 'e) fragment list"

text \<open>The text of a tree, without and with the patch.\<close>

fun unpatched :: "('x, 'e) fragment list \<Rightarrow> 'e + string" where
  "unpatched [] = Inr []"
| "unpatched (Verbatim t # fs) = bindE (unpatched fs) (\<lambda>more. Inr (t @ more))"
| "unpatched (Failure e # fs) = Inl e"
| "unpatched (OperationList xs # fs) =
     bindE (emit_operations (map (\<lambda>(operation, body). (operation, unpatched body)) xs)) (\<lambda>t.
       bindE (unpatched fs) (\<lambda>more. Inr (t @ more)))"
| "unpatched (LoopEntry w source body # fs) = bindE (unpatched body) (\<lambda>t. bindE (unpatched fs) (\<lambda>more. Inr (t @ more)))"
| "unpatched (DefinedOwner w d body # fs) = bindE (unpatched body) (\<lambda>t. bindE (unpatched fs) (\<lambda>more. Inr (t @ more)))"
| "unpatched (EdgeOwner w k body # fs) = bindE (unpatched body) (\<lambda>t. bindE (unpatched fs) (\<lambda>more. Inr (t @ more)))"

fun patched :: "('x, 'e) fragment list \<Rightarrow> 'e + string" where
  "patched [] = Inr []"
| "patched (Verbatim t # fs) = bindE (patched fs) (\<lambda>more. Inr (t @ more))"
| "patched (Failure e # fs) = Inl e"
| "patched (OperationList xs # fs) =
     bindE (emit_marked (map (\<lambda>(operation, body). (operation, patched body)) xs)) (\<lambda>t.
       bindE (patched fs) (\<lambda>more. Inr (t @ more)))"
| "patched (LoopEntry w source body # fs) =
     bindE (patched body) (\<lambda>t. bindE (patched fs) (\<lambda>more. Inr (mark_loop_entry w source t @ more)))"
| "patched (DefinedOwner w d body # fs) =
     bindE (patched body) (\<lambda>t. bindE (patched fs) (\<lambda>more. Inr (mark_created w (rc_definition_kind d) t @ more)))"
| "patched (EdgeOwner w k body # fs) =
     bindE (patched body) (\<lambda>t. bindE (patched fs) (\<lambda>more. Inr (mark_created w (edge_kind k) t @ more)))"

text \<open>Two results agree: the same failure, or a text and a marking of it.\<close>

definition marked_result :: "'e + string \<Rightarrow> 'e + string \<Rightarrow> bool" where
  "marked_result r r' \<longleftrightarrow> (case r of Inl e \<Rightarrow> r' = Inl e | Inr t \<Rightarrow> (\<exists>t'. r' = Inr t' \<and> marking t' t))"

lemma marked_result_bind:
  assumes "marked_result r r'" and "marked_result q q'" and "\<And>t t'. marking t' t \<Longrightarrow> marking (f t') t"
  shows "marked_result (bindE r (\<lambda>t. bindE q (\<lambda>more. Inr (t @ more)))) (bindE r' (\<lambda>t. bindE q' (\<lambda>more. Inr (f t @ more))))"
  using assms by (auto simp: marked_result_def intro!: marking_append split: sum.splits)

lemma mark_created_marking:
  assumes "marking t s" and "marker_word kind"
  shows "marking (mark_created w kind t) s"
proof -
  have "CHR ''*'' \<notin> set (join '' '' [''K'', show_int w, kind])"
    using assms(2) words_ok by (intro join_no_star) simp
  from marking_append [OF assms(1) marking_mark [OF marking_Nil this]] show ?thesis
    by (simp add: mark_created_def mark_def)
qed

lemma mark_loop_entry_marking:
  assumes "marking t s"
  shows "marking (mark_loop_entry w source t) s"
proof -
  have "CHR ''*'' \<notin> set (join '' '' [''B'', ''A'', ''loop_entry'', rc_source_name source, ''solo'', show_int w])"
    using words_ok by (intro join_no_star) (simp add: marker_word_def char_class_defs)
  from marking_region [OF assms this, of "''E''"] show ?thesis by (simp add: mark_loop_entry_def mark_def)
qed

lemma emit_marked_from_marking:
  assumes "list_all2 (\<lambda>(operation, r) (operation', r'). operation' = operation \<and> marked_result r r') rest rest'"
    and "p + length rest \<le> length ops"
  shows "marked_result (emit_operations rest) (emit_marked_from ops (int p) rest')"
  using assms
proof (induction arbitrary: p rule: list_all2_induct)
  case Nil
  then show ?case by (simp add: marked_result_def marking_Nil)
next
  case (Cons x rest y rest')
  obtain operation r r' where x: "x = (operation, r)" "y = (operation, r')" and r: "marked_result r r'"
    using Cons.hyps(1) by (cases x; cases y) auto
  have "marked_result (emit_operations rest) (emit_marked_from ops (int p + 1) rest')"
    using Cons.IH [of "Suc p"] Cons.prems by (simp add: add.commute)
  then show ?case unfolding x emit_operations.simps emit_marked_from.simps
    by (rule marked_result_bind [OF r]) (rule rc_marked_marking, use Cons.prems in simp_all)
qed

lemma definition_kind_word: "marker_word (rc_definition_kind d)"
  by (cases d) (simp_all add: marker_word_def char_class_defs)

lemma edge_kind_word: "marker_word (edge_kind k)"
  by (cases k) (simp_all add: marker_word_def char_class_defs)

lemma patched_marking: "marked_result (unpatched fs) (patched fs)"
proof (induction fs rule: unpatched.induct)
  case 1
  then show ?case by (simp add: marked_result_def marking_Nil)
next
  case (2 t fs)
  then show ?case by (auto simp: marked_result_def intro!: marking_append marking_refl split: sum.splits)
next
  case (3 e fs)
  then show ?case by (simp add: marked_result_def)
next
  case (4 xs fs)
  have "list_all2 (\<lambda>(operation, r) (operation', r'). operation' = operation \<and> marked_result r r')
      (map (\<lambda>(operation, body). (operation, unpatched body)) xs) (map (\<lambda>(operation, body). (operation, patched body)) xs)"
    unfolding list.rel_map list_all2_same using "4.IH"(1) by (auto split: prod.splits)
  then have "marked_result (emit_operations (map (\<lambda>(operation, body). (operation, unpatched body)) xs))
      (emit_marked (map (\<lambda>(operation, body). (operation, patched body)) xs))"
    unfolding emit_marked_def by (rule emit_marked_from_marking [where p = 0, simplified]) simp
  from marked_result_bind [OF this "4.IH"(2), of "\<lambda>t. t"] show ?case by simp
next
  case (5 w source body fs)
  then show ?case by (simp add: marked_result_bind mark_loop_entry_marking)
next
  case (6 w d body fs)
  then show ?case by (simp add: marked_result_bind mark_created_marking definition_kind_word)
next
  case (7 w k body fs)
  then show ?case by (simp add: marked_result_bind mark_created_marking edge_kind_word)
qed

section \<open>Events and the regions read back\<close>

text \<open>What the markers of a function body say, in order.\<close>

datatype event =
    Plain string
  | Created int string
  | Acquired int string string string string
  | Dropped int string string

fun render :: "event \<Rightarrow> string" where
  "render (Plain t) = t"
| "render (Created w k) = mark (join '' '' [''K'', show_int w, k])"
| "render (Acquired w r s p t) = mark (join '' '' [''B'', ''A'', r, s, p, show_int w]) @ t @ mark ''E''"
| "render (Dropped w partner t) = mark (join '' '' [''B'', ''D'', show_int w, partner]) @ t @ mark ''E''"

fun plain_text :: "event \<Rightarrow> string" where
  "plain_text (Plain t) = t"
| "plain_text (Created w k) = []"
| "plain_text (Acquired w r s p t) = t"
| "plain_text (Dropped w partner t) = t"

fun event_ok :: "event \<Rightarrow> bool" where
  "event_ok (Plain t) = True"
| "event_ok (Created w k) = marker_word k"
| "event_ok (Acquired w r s p t) = (marker_word r \<and> marker_word s \<and> marker_word p)"
| "event_ok (Dropped w partner t) = marker_word partner"

fun acquisitions :: "event list \<Rightarrow> (int \<times> string) list" where
  "acquisitions [] = []"
| "acquisitions (Acquired w r s p t # es) = (w, r) # acquisitions es"
| "acquisitions (_ # es) = acquisitions es"

fun creations :: "event list \<Rightarrow> (int \<times> string) list" where
  "creations [] = []"
| "creations (Created w k # es) = (w, k) # creations es"
| "creations (_ # es) = creations es"

text \<open>Where an owner comes from: its last acquisition in the body, or else its last creation.\<close>

definition origin :: "event list \<Rightarrow> int \<Rightarrow> string option" where
  "origin es w = (case map_of (rev (acquisitions es)) w of
      Some r \<Rightarrow> Some r | None \<Rightarrow> map_of (rev (creations es)) w)"

fun expected :: "(int \<Rightarrow> string option) \<Rightarrow> event list \<Rightarrow> string \<Rightarrow> (string \<times> string) list" where
  "expected f [] c = [(c, ''unmarked'')]"
| "expected f (Plain t # es) c = expected f es (c @ t)"
| "expected f (Created w k # es) c = (c, ''unmarked'') # expected f es []"
| "expected f (Acquired w r s p t # es) c = (c, ''unmarked'') # (t, acquire_category r s p) # expected f es []"
| "expected f (Dropped w partner t # es) c =
     (c, ''unmarked'') # (t, drop_category (the (f w)) partner) # expected f es []"

fun segments :: "event list \<Rightarrow> string \<Rightarrow> (string \<times> string) list \<times> string" where
  "segments [] c = ([], c)"
| "segments (Plain t # es) c = segments es (c @ t)"
| "segments (Created w k # es) c =
     ((c, join '' '' [''K'', show_int w, k]) # fst (segments es []), snd (segments es []))"
| "segments (Acquired w r s p t # es) c =
     ((c, join '' '' [''B'', ''A'', r, s, p, show_int w]) # (t, ''E'') # fst (segments es []), snd (segments es []))"
| "segments (Dropped w partner t # es) c =
     ((c, join '' '' [''B'', ''D'', show_int w, partner]) # (t, ''E'') # fst (segments es []), snd (segments es []))"

lemma segments_interleave: "c @ concat (map render es) = interleave (fst (segments es c)) (snd (segments es c))"
  by (induction es c rule: segments.induct) (simp_all del: join.simps)

lemma segments_plain: "concat (map fst (fst (segments es c))) @ snd (segments es c) = c @ concat (map plain_text es)"
  by (induction es c rule: segments.induct) (simp_all del: join.simps)

lemma segments_payloads:
  "list_all event_ok es \<Longrightarrow> \<forall>(chunk, payload) \<in> set (fst (segments es c)). CHR ''*'' \<notin> set payload"
  by (induction es c rule: segments.induct) (simp_all add: join_no_star words_ok del: join.simps)

lemma segments_ok:
  assumes "list_all event_ok es" and "\<not> opens_marker (concat (map plain_text es))"
  shows "chunks_ok (fst (segments es [])) (snd (segments es []))"
  using no_comment_chunks [of "fst (segments es [])" "snd (segments es [])"] segments_payloads [OF assms(1)]
    segments_plain [of es "[]"] assms(2) by simp

lemma show_int_inject [simp]: "show_int m = show_int n \<longleftrightarrow> m = n"
proof -
  have minus: "CHR ''-'' \<noteq> c" if "c \<in> set (show_nat k)" for c k
    using show_nat_digits [OF that] by (auto simp: char_class_defs)
  have "show_nat k \<noteq> CHR ''-'' # l" for k l using minus [of "CHR ''-''" k] by (metis list.set_intros(1))
  then show ?thesis by (auto simp: show_int_def dest: sym)
qed

definition field_lists :: "event list \<Rightarrow> string list list" where
  "field_lists es = map (\<lambda>x. split_ws (snd x)) (fst (segments es []))"

text \<open>The fields of the markers of one event.\<close>

fun event_fields :: "event \<Rightarrow> string list list" where
  "event_fields (Plain t) = []"
| "event_fields (Created w k) = [[''K'', show_int w, k]]"
| "event_fields (Acquired w r s p t) = [[''B'', ''A'', r, s, p, show_int w], [''E'']]"
| "event_fields (Dropped w partner t) = [[''B'', ''D'', show_int w, partner], [''E'']]"

lemma split_E: "split_ws ''E'' = [''E'']"
  using split_ws_join [of "[''E'']"] words_ok by simp

lemma segments_fields:
  "list_all event_ok es \<Longrightarrow> map (\<lambda>x. split_ws (snd x)) (fst (segments es c)) = concat (map event_fields es)"
  by (induction es c rule: segments.induct) (simp_all add: split_ws_join words_ok split_E del: join.simps)

definition owners_match :: "event list \<Rightarrow> (string, string) dict \<times> (string, string) dict \<Rightarrow> bool" where
  "owners_match es owners \<longleftrightarrow> (\<forall>w. dict_get (fst owners) (show_int w) = map_of (rev (acquisitions es)) w
     \<and> dict_get (snd owners) (show_int w) = map_of (rev (creations es)) w)"

lemma acquisitions_append: "acquisitions (es @ fs) = acquisitions es @ acquisitions fs"
  by (induction es rule: acquisitions.induct) auto

lemma creations_append: "creations (es @ fs) = creations es @ creations fs"
  by (induction es rule: creations.induct) auto

lemma note_event:
  assumes "owners_match es owners"
  shows "\<exists>owners'. foldE note_owner (event_fields e) owners = Inr owners' \<and> owners_match (es @ [e]) owners'"
  using assms
  by (cases owners; cases e)
    (auto simp: note_owner_def field_def owners_match_def acquisitions_append creations_append dict_put_lookup)

lemma note_events:
  "owners_match es owners \<Longrightarrow> \<exists>owners'. foldE note_owner (concat (map event_fields fs)) owners = Inr owners'
     \<and> owners_match (es @ fs) owners'"
proof (induction fs arbitrary: es owners)
  case (Cons f fs)
  from note_event [OF Cons.prems, of f] obtain o1 where o1: "foldE note_owner (event_fields f) owners = Inr o1"
    "owners_match (es @ [f]) o1" by blast
  from Cons.IH [OF o1(2)] o1(1) show ?case by (simp add: foldE_append)
qed auto

lemma pieces_expected:
  assumes "list_all event_ok es" and "\<And>w. f w = (case dict_get (fst owners) (show_int w) of Some r \<Rightarrow> Some r
      | None \<Rightarrow> dict_get (snd owners) (show_int w))"
    and "\<forall>w partner t. Dropped w partner t \<in> set es \<longrightarrow> f w \<noteq> None"
  shows "pieces_of name owners (map (\<lambda>(chunk, payload). (chunk, split_ws payload)) (fst (segments es c)))
     (snd (segments es c)) ''unmarked'' = Inr (expected f es c)"
  using assms(1,3)
proof (induction es c rule: segments.induct)
  case (2 t es c)
  then show ?case by simp
next
  case (3 w k es c)
  have "marker_category name owners [''K'', show_int w, k] ''unmarked'' = Inr ''unmarked''"
    by (simp add: marker_category_other)
  with 3 show ?case by (simp add: split_ws_join words_ok del: join.simps)
next
  case (4 w r s p t es c)
  have "marker_category name owners [''B'', ''A'', r, s, p, show_int w] ''unmarked'' = Inr (acquire_category r s p)"
    by (subst marker_category_acquire) (simp_all add: cut_def)
  moreover have "marker_category name owners [''E''] category = Inr ''unmarked''" for category
    by (simp add: marker_category_other)
  ultimately show ?case using 4 by (simp add: split_ws_join words_ok split_E del: join.simps)
next
  case (5 w partner t es c)
  then have "f w \<noteq> None" by (metis list.set_intros(1))
  then obtain y where y: "f w = Some y" by blast
  then have "dict_get (fst owners) (show_int w) = Some y
      \<or> dict_get (fst owners) (show_int w) = None \<and> dict_get (snd owners) (show_int w) = Some y"
    using assms(2) [of w] by (auto split: option.splits)
  then have "marker_category name owners [''B'', ''D'', show_int w, partner] ''unmarked'' = Inr (drop_category y partner)"
    by (subst marker_category_drop) (auto simp: cut_def)
  moreover have "marker_category name owners [''E''] category = Inr ''unmarked''" for category
    by (simp add: marker_category_other)
  ultimately show ?case using 5 y by (simp add: split_ws_join words_ok split_E del: join.simps)
qed simp

lemma region_tags_events:
  assumes "list_all event_ok es" and "\<not> opens_marker (concat (map plain_text es))"
    and "\<forall>w partner t. Dropped w partner t \<in> set es \<longrightarrow> origin es w \<noteq> None"
  shows "region_tags (concat (map render es)) name = Inr (expected (origin es) es [])"
proof -
  have "owners_match [] ([], [])" by (simp add: owners_match_def)
  from note_events [OF this, of es] obtain owners where
    owners: "foldE note_owner (concat (map event_fields es)) ([], []) = Inr owners" "owners_match es owners" by auto
  have "region_tags (concat (map render es)) name =
      pieces_of name owners (map (\<lambda>(chunk, payload). (chunk, split_ws payload)) (fst (segments es []))) (snd (segments es [])) ''unmarked''"
    using region_tags_marked [OF segments_ok [OF assms(1,2)]] segments_interleave [of "[]" es]
      segments_fields [OF assms(1), of "[]"] owners(1) by simp
  also have "\<dots> = Inr (expected (origin es) es [])"
    by (rule pieces_expected [OF assms(1) _ assms(3)]) (use owners(2) in \<open>simp_all add: origin_def owners_match_def split: option.split\<close>)
  finally show ?thesis .
qed

text \<open>The event a marked operation is.\<close>

definition event_of :: "'x ownership_operation list \<Rightarrow> int \<Rightarrow> 'x ownership_operation \<Rightarrow> string \<Rightarrow> event" where
  "event_of ops p operation t =
     (case operation of
        AcquireOwner w b \<Rightarrow> Acquired w (rc_reason ops p (b_value b)) (rc_source_name (b_source b))
          (rc_acquire_pair ops p (b_source b)) t
      | DropOwner w \<Rightarrow> Dropped w (rc_partner_reason ops (p - 1) w 1) t
      | _ \<Rightarrow> Plain t)"

lemma rc_marked_event: "rc_marked ops p operation t = render (event_of ops p operation t)"
  by (cases operation) (simp_all add: rc_marked_def event_of_def mark_def)

lemma event_of_ok: "p \<le> length ops \<Longrightarrow> event_ok (event_of ops (int p) operation t)"
  using words_ok reason_in [of "int p" ops] partner_in [of p ops]
  by (cases operation) (simp_all add: event_of_def)

end
