(* ===== verification/Marker_Theorems.thy ===== *)
theory Marker_Theorems
  imports Emit_Markers_Props
begin

text \<open>
  The properties of \<^verbatim>\<open>patch_emit_markers.py\<close> and of the format it shares with \<^verbatim>\<open>instrument_rc.py\<close>.
\<close>

section \<open>The script\<close>

lemma universal_newlines_set: "set (universal_newlines s) \<subseteq> insert newline (set s)"
  by (induction s rule: universal_newlines.induct) auto

text \<open>C15: the patch script either fails and leaves every file as it was, or it rewrites the emitter of the
  given source directory only, and the new text comes from the old one by replacing, for each edit in
  turn, the single occurrence of its anchor by its replacement.\<close>

theorem markers_main_outcome:
  "(isl (snd (markers_main arguments fs)) \<and> fst (markers_main arguments fs) = fs)
   \<or> (\<exists>root rest raw patched. arguments = root # rest \<and> fs (emit_path root) = Some raw
        \<and> patched_by EDITS (universal_newlines raw) patched
        \<and> fst (markers_main arguments fs) = fs(emit_path root \<mapsto> patched))"
proof (cases "isl (snd (markers_main arguments fs))")
  case True
  then show ?thesis by (auto simp: markers_main_def Let_def split: list.splits option.splits sum.splits)
next
  case False
  then obtain root rest raw patched where "arguments = root # rest" "fs (emit_path root) = Some raw"
    "patch (universal_newlines raw) = Inr patched" "fst (markers_main arguments fs) = fs(emit_path root \<mapsto> patched)"
    by (auto simp: markers_main_def Let_def split: list.splits option.splits sum.splits)
  then show ?thesis using patch_patched by blast
qed

text \<open>C16: the anchors are written for a tab-indented emitter: on an emitter without tab characters, such as
  the one in the repository, the script stops at its first anchor, found zero times, and patches nothing.\<close>

theorem markers_main_needs_tabs:
  assumes "fs (emit_path root) = Some raw" and "tab \<notin> set raw"
  shows "markers_main (root # rest) fs =
    (fs, Inl (SystemExit (''error: patch_emit_markers: anchor found 0 times (expected 1):'' @ [newline] @ fst import_edit)))"
proof -
  have "tab \<notin> set (universal_newlines raw)" using universal_newlines_set [of raw] assms(2) by auto
  then show ?thesis using assms(1) by (simp add: markers_main_def patch_no_tab)
qed

theorem markers_main_needs_tabs_witness:
  "markers_main [''src/''] [''src/emit/emit.brp'' \<mapsto> ''    OwnedValueOperation(''] =
    ([''src/emit/emit.brp'' \<mapsto> ''    OwnedValueOperation(''],
     Inl (SystemExit (''error: patch_emit_markers: anchor found 0 times (expected 1):'' @ [newline] @ fst import_edit)))"
  by (rule markers_main_needs_tabs [where raw = "''    OwnedValueOperation(''"])
    (simp_all add: emit_path_def rstrip_char_def)

section \<open>Reasons and pairs\<close>

definition reads_field :: "int \<Rightarrow> 'x ownership_operation \<Rightarrow> bool" where
  "reads_field v operation = (case operation of
      DefineValue d \<Rightarrow> (case d_operation d of ReadRecordFieldDefinition _ \<Rightarrow> d_id d = v | _ \<Rightarrow> False)
    | _ \<Rightarrow> False)"

text \<open>C14: the reason of an acquisition is \<open>projection\<close> when the operation right before it reads the field it
  acquires, and otherwise is decided by the first later operation that is neither an acquisition nor a
  drop: a call, a construction, another definition, a join or loop, or none.\<close>

theorem rc_reason_spec:
  assumes "p < length operations"
  shows "rc_reason operations (int p) v =
    (if 0 < p \<and> reads_field v (operations ! (p - 1)) then ''projection'' else next_reason (drop (Suc p) operations))"
proof -
  have g: "get_at operations (int p - 1) = Some (operations ! (p - 1))" if "0 < p"
    using get_at_nat [of operations "p - 1"] that assms by (simp add: of_nat_diff)
  have "rc_reason_before_definition operations (int p + 1) = next_reason (drop (Suc p) operations)"
    using reason_before_next [of operations "Suc p"] by (simp add: add.commute)
  then show ?thesis using g
    by (auto simp: rc_reason_def reads_field_def Let_def split: ownership_operation.splits owned_value_operation.splits)
qed

theorem rc_reason_spec_witness:
  "rc_reason [AcquireOwner 1 \<lparr>b_value = 5, b_source = OwnerBorrow 3\<rparr>, DropOwner 3,
      DefineValue \<lparr>d_id = 6, d_operation = CallDefinition (), d_rest = ()\<rparr>] 0 5 = ''call''"
  using rc_reason_spec [of 0 "[AcquireOwner 1 \<lparr>b_value = 5, b_source = OwnerBorrow 3\<rparr>, DropOwner 3,
      DefineValue \<lparr>d_id = 6, d_operation = CallDefinition (), d_rest = ()\<rparr>]" 5]
  by (simp add: next_reason_def)

text \<open>C13: pairs are seen from both sides. An acquisition from an owner is marked \<open>pair\<close> exactly when a later drop
  of that owner is linked to it, that is, separated by acquisitions, drops and at most one definition;
  a drop names a partner exactly when some earlier acquisition from its owner is linked to it; and the
  reason it names is that of the nearest such acquisition.\<close>

theorem pair_partner:
  assumes "p < length operations" and "j < length operations"
  shows "(rc_acquire_pair operations (int p) (OwnerBorrow w) = ''pair'' \<longleftrightarrow>
      (\<exists>k < length operations. drops w (operations ! k) \<and> linked operations p k))
    \<and> (rc_partner_reason operations (int j - 1) w 1 \<noteq> ''none'' \<longleftrightarrow>
      (\<exists>q. acquires_from w (operations ! q) \<and> linked operations q j))
    \<and> (\<forall>q. nearest operations j w 1 q \<longrightarrow> rc_partner_reason operations (int j - 1) w 1 = reason_of operations q)"
proof -
  have pair: "rc_acquire_pair operations (int p) (OwnerBorrow w) = ''pair'' \<longleftrightarrow>
      (\<exists>k < length operations. drops w (operations ! k) \<and> linked operations p k)"
    using drops_after_iff [of operations "Suc p" w 1]
    by (auto simp: rc_acquire_pair_def linked_def Suc_le_eq add.commute)
  have unique: "q = r" if "nearest operations j w 1 q" "nearest operations j w 1 r" for q r
    using that unfolding nearest_def by (meson linorder_neqE_nat)
  have reason: "reason_of operations q \<noteq> ''none''" if "nearest operations j w 1 q" for q
    using that reason_not_none by (cases "operations ! q") (auto simp: nearest_def)
  have ex: "(\<exists>q. nearest operations j w 1 q) \<longleftrightarrow> (\<exists>q. acquires_from w (operations ! q) \<and> linked operations q j)"
    using nearest_exists [of _ j w operations 1] by (auto simp: linked_def nearest_def)
  have "j \<le> length operations" using assms(2) by simp
  from partner_reason_cases [OF this, of w 1] consider
      (one) q where "nearest operations j w 1 q" "rc_partner_reason operations (int j - 1) w 1 = reason_of operations q"
    | (none) "\<forall>q. \<not> nearest operations j w 1 q" "rc_partner_reason operations (int j - 1) w 1 = ''none''" by auto
  then show ?thesis using pair ex unique reason by cases metis+
qed

theorem pair_partner_witness:
  "rc_acquire_pair [AcquireOwner 1 \<lparr>b_value = 5, b_source = OwnerBorrow 3\<rparr>, DropOwner (3 :: int) :: unit ownership_operation]
     0 (OwnerBorrow 3) = ''pair''
   \<and> rc_partner_reason [AcquireOwner 1 \<lparr>b_value = 5, b_source = OwnerBorrow 3\<rparr>, DropOwner (3 :: int) :: unit ownership_operation]
     0 3 1 \<noteq> ''none''"
proof -
  let ?ops = "[AcquireOwner 1 \<lparr>b_value = 5, b_source = OwnerBorrow 3\<rparr>, DropOwner (3 :: int) :: unit ownership_operation]"
  have l: "linked ?ops 0 1" by (simp add: linked_def near_def)
  have d: "drops 3 (?ops ! 1)" "acquires_from 3 (?ops ! 0)" by simp_all
  have "(rc_acquire_pair ?ops (int 0) (OwnerBorrow 3) = ''pair'' \<longleftrightarrow>
      (\<exists>k < length ?ops. drops 3 (?ops ! k) \<and> linked ?ops 0 k))
    \<and> (rc_partner_reason ?ops (int 1 - 1) 3 1 \<noteq> ''none'' \<longleftrightarrow> (\<exists>q. acquires_from 3 (?ops ! q) \<and> linked ?ops q 1))"
    using pair_partner [of 0 ?ops 1 3] by simp
  moreover have "\<exists>k < length ?ops. drops 3 (?ops ! k) \<and> linked ?ops 0 k" by (rule exI [of _ 1]) (use l d in simp)
  moreover have "\<exists>q. acquires_from 3 (?ops ! q) \<and> linked ?ops q 1" using l d by blast
  ultimately show ?thesis by simp
qed

section \<open>The marked program\<close>

text \<open>C12: stripping the markers gives the unpatched output. Whatever an emitter writes around the patched places, however
  deep it nests operation lists in definitions, joins and loops, the patched run fails exactly as the unpatched one
  does, and otherwise removing the markers from its text, as the instrumenter does, gives the unpatched text back,
  if that text has no marker of its own.\<close>

theorem emit_marked_strips:
  "(unpatched fs = Inl e \<longleftrightarrow> patched fs = Inl e)
   \<and> (unpatched fs = Inr t \<longrightarrow> \<not> opens_marker t \<longrightarrow> (\<exists>marked. patched fs = Inr marked \<and> strip_markers marked = t))"
proof -
  have "marked_result (unpatched fs) (patched fs)" by (rule patched_marking)
  then show ?thesis using marking_strip by (cases "unpatched fs") (auto simp: marked_result_def)
qed

text \<open>A loop whose entry acquires an owner and whose body drops one, after a definition that owns a value.\<close>

theorem emit_marked_strips_witness:
  "\<exists>marked. patched [OperationList [(DefineValue \<lparr>d_id = 6, d_operation = CallDefinition (), d_rest = ()\<rparr>,
        [DefinedOwner 3 (CallDefinition ()) [Verbatim ''o=c();'']]),
      (ExecuteLoop (), [LoopEntry 4 (OwnerBorrow 3) [Verbatim ''a();''], Verbatim ''for(;;){'',
        OperationList [(DropOwner 4, [Verbatim ''d();''])], Verbatim ''}'']) :: unit ownership_operation \<times> (unit, unit) fragment list]] = Inr marked
     \<and> strip_markers marked = ''o=c();a();for(;;){d();}''"
proof -
  let ?fs = "[OperationList [(DefineValue \<lparr>d_id = 6, d_operation = CallDefinition (), d_rest = ()\<rparr>,
        [DefinedOwner 3 (CallDefinition ()) [Verbatim ''o=c();'']]),
      (ExecuteLoop (), [LoopEntry 4 (OwnerBorrow 3) [Verbatim ''a();''], Verbatim ''for(;;){'',
        OperationList [(DropOwner 4, [Verbatim ''d();''])], Verbatim ''}'']) :: unit ownership_operation \<times> (unit, unit) fragment list]]"
  have u: "unpatched ?fs = Inr ''o=c();a();for(;;){d();}''" by simp
  have "\<not> opens_marker ''o=c();a();for(;;){d();}''" by (auto simp: opens_marker_def Cons_eq_append_conv)
  with u emit_marked_strips [of ?fs "()" "''o=c();a();for(;;){d();}''"] show ?thesis by blast
qed

text \<open>C11: the reader recovers what the markers say. The marker functions write one event per operation, loop
  entry or created owner; for a body of such events in which every dropped owner was acquired or created,
  the instrumenter's regions are exactly the texts of the events, in order, each acquisition counted under
  its reason, source and pairing and each drop under the origin of its owner, its last acquisition or else
  its last creation.\<close>

theorem markers_read_back:
  assumes "list_all event_ok es" and "\<not> opens_marker (concat (map plain_text es))"
    and "\<forall>w partner t. Dropped w partner t \<in> set es \<longrightarrow> origin es w \<noteq> None"
  shows "region_tags (concat (map render es)) name = Inr (expected (origin es) es [])
    \<and> rc_marked operations p operation emitted = render (event_of operations p operation emitted)
    \<and> mark_loop_entry w source emitted = render (Acquired w ''loop_entry'' (rc_source_name source) ''solo'' emitted)
    \<and> mark_created w kind emitted = render (Plain emitted) @ render (Created w kind)"
  using region_tags_events [OF assms] rc_marked_event
  by (simp add: mark_loop_entry_def mark_created_def mark_def)

theorem markers_read_back_witness:
  "region_tags (concat (map render [Created 7 ''constructed'', Plain ''f();'', Dropped 7 ''none'' ''d(x);''])) ''f''
     = Inr (expected (origin [Created 7 ''constructed'', Plain ''f();'', Dropped 7 ''none'' ''d(x);''])
         [Created 7 ''constructed'', Plain ''f();'', Dropped 7 ''none'' ''d(x);''] [])
   \<and> expected (origin [Created 7 ''constructed'', Plain ''f();'', Dropped 7 ''none'' ''d(x);''])
         [Created 7 ''constructed'', Plain ''f();'', Dropped 7 ''none'' ''d(x);''] []
     = [([], ''unmarked''), (''f();'', ''unmarked''), (''d(x);'', ''drop:constructed''), ([], ''unmarked'')]"
proof -
  let ?es = "[Created 7 ''constructed'', Plain ''f();'', Dropped 7 ''none'' ''d(x);'']"
  have "region_tags (concat (map render ?es)) ''f'' = Inr (expected (origin ?es) ?es [])"
  proof (rule conjunct1 [OF markers_read_back])
    show "list_all event_ok ?es" by (simp add: marker_word_def char_class_defs)
    show "\<not> opens_marker (concat (map plain_text ?es))" by (auto simp: opens_marker_def Cons_eq_append_conv)
    show "\<forall>w partner t. Dropped w partner t \<in> set ?es \<longrightarrow> origin ?es w \<noteq> None" by (simp add: origin_def)
  qed
  then show ?thesis by (simp add: origin_def drop_category_def)
qed

end
