(* ===== verification/Py_Format.thy ===== *)
theory Py_Format
  imports Complex_Main Py_Data
begin

text \<open>
  Numbers as Python prints and computes them: thousands separators, hexadecimal, field widths, and IEEE
  binary64 floats. A finite float is the rational number it denotes; every operation rounds the exact
  result to the nearest float, ties to even. The sign of zero is not represented: the programs compute no
  negative zero.
\<close>

section \<open>Integers\<close>

text \<open>\<open>"{:,}".format(n)\<close>: groups of three digits from the right.\<close>

function comma_groups :: "string \<Rightarrow> string" where
  "comma_groups s =
     (if length s \<le> 3 then s
      else comma_groups (take (length s - 3) s) @ '','' @ drop (length s - 3) s)"
  by pat_completeness auto
termination
  by (relation "measure length") auto

declare comma_groups.simps [simp del]

definition number :: "int \<Rightarrow> string" where
  "number value = (if value < 0 then ''-'' else []) @ comma_groups (show_nat (nat \<bar>value\<bar>))"

lemma comma_groups_digits: "filter (\<lambda>c. c \<noteq> CHR '','') (comma_groups s) = filter (\<lambda>c. c \<noteq> CHR '','') s"
proof (induction s rule: comma_groups.induct)
  case (1 s)
  show ?case
  proof (cases "length s \<le> 3")
    case False
    then have "filter (\<lambda>c. c \<noteq> CHR '','') (comma_groups s) =
        filter (\<lambda>c. c \<noteq> CHR '','') (take (length s - 3) s) @ filter (\<lambda>c. c \<noteq> CHR '','') (drop (length s - 3) s)"
      using 1 by (subst comma_groups.simps) simp
    also have "\<dots> = filter (\<lambda>c. c \<noteq> CHR '','') s" by (metis append_take_drop_id filter_append)
    finally show ?thesis .
  qed (subst comma_groups.simps, simp)
qed

lemma show_nat_no_comma: "filter (\<lambda>c. c \<noteq> CHR '','') (show_nat n) = show_nat n"
proof -
  have "\<not> is_digit CHR '',''" by (simp add: char_class_defs)
  then have "CHR '','' \<notin> set (show_nat n)" using show_nat_digits by blast
  then show ?thesis by (auto simp: filter_id_conv)
qed

lemma number_digits: "filter (\<lambda>c. c \<noteq> CHR '','') (number value) = show_int value"
  by (auto simp: number_def show_int_def comma_groups_digits show_nat_no_comma)

lemma number_inject: "number m = number n \<longleftrightarrow> m = n"
proof
  assume "number m = number n"
  then have "show_int m = show_int n" by (metis number_digits)
  moreover have "show_nat k \<noteq> CHR ''-'' # l" for k l
    using show_nat_digits [of "CHR ''-''" k] by (auto simp: char_class_defs)
  ultimately show "m = n" by (auto simp: show_int_def split: if_splits dest: sym)
qed simp

text \<open>Hexadecimal digits, \<open>hex(n)\<close> and \<open>int(s, 16)\<close>.\<close>

definition hex_char :: "nat \<Rightarrow> char" where
  "hex_char d = (if d < 10 then char_of (48 + d) else char_of (87 + d))"

fun hex_digits :: "nat \<Rightarrow> string" where
  "hex_digits n = (if n < 16 then [hex_char n] else hex_digits (n div 16) @ [hex_char (n mod 16)])"

declare hex_digits.simps [simp del]

definition hex :: "int \<Rightarrow> string" where
  "hex n = (if n < 0 then ''-'' else []) @ ''0x'' @ hex_digits (nat \<bar>n\<bar>)"

definition is_hex :: "char \<Rightarrow> bool" where
  "is_hex c = (is_digit c \<or> (97 \<le> (of_char c :: nat) \<and> (of_char c :: nat) \<le> 102)
     \<or> (65 \<le> (of_char c :: nat) \<and> (of_char c :: nat) \<le> 70))"

definition hex_value :: "char \<Rightarrow> nat" where
  "hex_value c = (let n = (of_char c :: nat) in if is_digit c then n - 48 else if 97 \<le> n then n - 87 else n - 55)"

definition int16 :: "string \<Rightarrow> int result" where
  "int16 s =
     (let (neg, body) = signed (strip s);
          body = (if starts_with body ''0x_'' \<or> starts_with body ''0X_'' then drop 3 body
                  else if starts_with body ''0x'' \<or> starts_with body ''0X'' then drop 2 body else body)
      in if digit_groups is_hex body
         then let n = int (foldl (\<lambda>v c. 16 * v + hex_value c) 0 (filter is_hex body)) in Inr (if neg then - n else n)
         else Inl ValueError)"

lemma hex_value_char [simp]: "d < 16 \<Longrightarrow> hex_value (hex_char d) = d"
  by (auto simp: hex_value_def hex_char_def char_class_defs Let_def of_char_of)

lemma is_hex_char [simp]: "d < 16 \<Longrightarrow> is_hex (hex_char d)"
  by (auto simp: is_hex_def hex_char_def char_class_defs of_char_of)

lemma hex_digits_all: "c \<in> set (hex_digits n) \<Longrightarrow> is_hex c"
proof (induction n rule: hex_digits.induct)
  case (1 n)
  then show ?case by (subst (asm) hex_digits.simps) (auto split: if_splits)
qed

lemma hex_digits_value: "foldl (\<lambda>v c. 16 * v + hex_value c) 0 (hex_digits n) = n"
proof (induction n rule: hex_digits.induct)
  case (1 n)
  then show ?case by (subst hex_digits.simps) simp
qed

lemma hex_digits_ne [simp]: "hex_digits n \<noteq> []"
  by (subst hex_digits.simps) simp

lemma is_hex_facts: "is_hex c \<Longrightarrow> \<not> is_space c \<and> c \<noteq> CHR ''_'' \<and> c \<noteq> CHR ''x'' \<and> c \<noteq> CHR ''X'' \<and> c \<noteq> CHR ''-'' \<and> c \<noteq> CHR ''+''"
proof -
  assume h: "is_hex c"
  then have "is_word c" by (auto simp: is_hex_def is_word_def is_digit_def)
  moreover have "\<not> is_hex CHR ''_''" "\<not> is_hex CHR ''x''" "\<not> is_hex CHR ''X''" "\<not> is_hex CHR ''-''" "\<not> is_hex CHR ''+''"
    by (simp_all add: is_hex_def is_digit_def)
  ultimately show ?thesis using h is_word_not_space by blast
qed

lemma int16_hex_nat: "int16 (''0x'' @ hex_digits n) = Inr (int n)"
proof -
  have all: "\<forall>c \<in> set (hex_digits n). is_hex c" using hex_digits_all by blast
  have last: "\<not> is_space (last (hex_digits n))" using all is_hex_facts last_in_set by (metis hex_digits_ne)
  have st: "strip (''0x'' @ hex_digits n) = ''0x'' @ hex_digits n"
    using last by (intro strip_id) (simp_all add: char_class_defs)
  have hd: "hd (hex_digits n) \<noteq> CHR ''_''" using all is_hex_facts hd_in_set by (metis hex_digits_ne)
  have us: "\<not> starts_with (''0x'' @ hex_digits n) ''0x_''"
    using hd by (cases "hex_digits n") auto
  have "CHR ''_'' \<notin> set (hex_digits n)" using all is_hex_facts by blast
  then have grp: "digit_groups is_hex (hex_digits n)"
    using all by (simp add: digit_groups_def split_char_no_sep)
  have fil: "filter is_hex (hex_digits n) = hex_digits n" using all by (simp add: filter_id_conv)
  show ?thesis using us grp fil hex_digits_value [of n]
    by (simp add: int16_def st [simplified] signed_def)
qed

section \<open>Binary64\<close>

datatype pyfloat = Fin rat | Inf bool | NaN

function bits :: "int \<Rightarrow> int" where
  "bits n = (if n \<le> 0 then 0 else bits (n div 2) + 1)"
  by pat_completeness auto
termination
  by (relation "measure nat") auto

declare bits.simps [simp del]

definition pow2 :: "int \<Rightarrow> rat" where
  "pow2 e = (if 0 \<le> e then 2 ^ nat e else 1 / 2 ^ nat (- e))"

text \<open>The exponent \<open>e\<close> with \<open>2 ^ e \<le> x < 2 ^ (e + 1)\<close>, for positive \<open>x\<close>.\<close>

definition exponent :: "rat \<Rightarrow> int" where
  "exponent x =
     (let (p, q) = quotient_of x; e = bits p - bits q
      in if pow2 e \<le> x then e else e - 1)"

definition round_even :: "rat \<Rightarrow> int" where
  "round_even x =
     (let f = \<lfloor>x\<rfloor>; r = x - of_int f in
      if r < 1 / 2 then f else if 1 / 2 < r then f + 1 else if even f then f else f + 1)"

definition unit_of :: "rat \<Rightarrow> rat" where
  "unit_of x = pow2 (max (exponent \<bar>x\<bar> - 52) (- 1074))"

definition rnd :: "rat \<Rightarrow> rat" where
  "rnd x = (if x = 0 then 0 else of_int (round_even (x / unit_of x)) * unit_of x)"

definition to_float :: "rat \<Rightarrow> pyfloat" where
  "to_float x = (let y = rnd x in if 2 ^ 1024 \<le> \<bar>y\<bar> then Inf (y < 0) else Fin y)"

text \<open>\<open>float(n)\<close> of an integer.\<close>

definition float_of_int :: "int \<Rightarrow> pyfloat result" where
  "float_of_int n = (case to_float (of_int n) of Fin y \<Rightarrow> Inr (Fin y) | _ \<Rightarrow> Inl OverflowError)"

fun fmul :: "pyfloat \<Rightarrow> pyfloat \<Rightarrow> pyfloat" where
  "fmul (Fin a) (Fin b) = to_float (a * b)"
| "fmul (Fin a) (Inf n) = (if a = 0 then NaN else Inf (n \<noteq> (a < 0)))"
| "fmul (Inf n) (Fin a) = (if a = 0 then NaN else Inf (n \<noteq> (a < 0)))"
| "fmul (Inf n) (Inf m) = Inf (n \<noteq> m)"
| "fmul NaN _ = NaN"
| "fmul _ NaN = NaN"

fun fdiv :: "pyfloat \<Rightarrow> pyfloat \<Rightarrow> pyfloat result" where
  "fdiv (Fin a) (Fin b) = (if b = 0 then Inl ZeroDivisionError else Inr (to_float (a / b)))"
| "fdiv (Fin a) (Inf n) = Inr (Fin 0)"
| "fdiv (Inf n) (Fin b) = (if b = 0 then Inl ZeroDivisionError else Inr (Inf (n \<noteq> (b < 0))))"
| "fdiv (Inf n) (Inf m) = Inr NaN"
| "fdiv NaN (Fin b) = (if b = 0 then Inl ZeroDivisionError else Inr NaN)"
| "fdiv NaN _ = Inr NaN"
| "fdiv _ NaN = Inr NaN"

fun fsub :: "pyfloat \<Rightarrow> pyfloat \<Rightarrow> pyfloat" where
  "fsub (Fin a) (Fin b) = to_float (a - b)"
| "fsub (Fin a) (Inf n) = Inf (\<not> n)"
| "fsub (Inf n) (Fin a) = Inf n"
| "fsub (Inf n) (Inf m) = (if n = m then NaN else Inf n)"
| "fsub NaN _ = NaN"
| "fsub _ NaN = NaN"

fun fabs :: "pyfloat \<Rightarrow> pyfloat" where
  "fabs (Fin a) = Fin \<bar>a\<bar>"
| "fabs (Inf n) = Inf False"
| "fabs NaN = NaN"

fun fless :: "pyfloat \<Rightarrow> pyfloat \<Rightarrow> bool" where
  "fless (Fin a) (Fin b) = (a < b)"
| "fless (Fin a) (Inf n) = (\<not> n)"
| "fless (Inf n) (Fin a) = n"
| "fless (Inf n) (Inf m) = (n \<and> \<not> m)"
| "fless _ _ = False"

text \<open>\<open>m / n\<close> of two integers: the quotient, correctly rounded.\<close>

definition int_div :: "int \<Rightarrow> int \<Rightarrow> pyfloat result" where
  "int_div m n =
     (if n = 0 then Inl ZeroDivisionError
      else case to_float (of_int m / of_int n) of Fin y \<Rightarrow> Inr (Fin y) | _ \<Rightarrow> Inl OverflowError)"

text \<open>
  \<open>float(s)\<close>: a sign, then \<open>inf\<close>, \<open>infinity\<close> or \<open>nan\<close> in any case, or digits with an optional point and an
  optional exponent.
\<close>

definition lower_ascii :: "char \<Rightarrow> char" where
  "lower_ascii c = (let n = (of_char c :: nat) in if 65 \<le> n \<and> n \<le> 90 then char_of (n + 32) else c)"

definition digit_part :: "string \<Rightarrow> bool" where
  "digit_part s = digit_groups is_digit s"

definition digits_of :: "string \<Rightarrow> int" where
  "digits_of s = int (digits_value (filter is_digit s))"

definition decimal :: "string \<Rightarrow> rat option" where
  "decimal s =
     (case split_char CHR ''.'' s of
        [whole_part] \<Rightarrow> if digit_part whole_part then Some (of_int (digits_of whole_part)) else None
      | [whole_part, frac_part] \<Rightarrow>
          if (whole_part = [] \<or> digit_part whole_part) \<and> (frac_part = [] \<or> digit_part frac_part) \<and> (whole_part \<noteq> [] \<or> frac_part \<noteq> [])
          then Some (of_int (digits_of whole_part) + of_int (digits_of frac_part) / 10 ^ length (filter is_digit frac_part)) else None
      | _ \<Rightarrow> None)"

definition pow10 :: "int \<Rightarrow> rat" where
  "pow10 e = (if 0 \<le> e then 10 ^ nat e else 1 / 10 ^ nat (- e))"

definition unsigned_float :: "string \<Rightarrow> pyfloat result" where
  "unsigned_float body =
     (let word = map lower_ascii body in
      if word = ''inf'' \<or> word = ''infinity'' then Inr (Inf False)
      else if word = ''nan'' then Inr NaN
      else case split_char CHR ''e'' word of
        [m] \<Rightarrow> (case decimal m of Some x \<Rightarrow> Inr (to_float x) | None \<Rightarrow> Inl ValueError)
      | [m, e] \<Rightarrow>
          (let (neg, digits) = signed e in
           case decimal m of
             Some x \<Rightarrow> if digit_part digits
               then Inr (to_float (x * pow10 (if neg then - digits_of digits else digits_of digits)))
               else Inl ValueError
           | None \<Rightarrow> Inl ValueError)
      | _ \<Rightarrow> Inl ValueError)"

definition py_float :: "string \<Rightarrow> pyfloat result" where
  "py_float s =
     (let (neg, body) = signed (strip s)
      in bindE (unsigned_float body) (\<lambda>x. Inr (if neg then fsub (Fin 0) x else x)))"

text \<open>\<open>"%.nf" % x\<close>.\<close>

definition zero_pad :: "nat \<Rightarrow> string \<Rightarrow> string" where
  "zero_pad n s = replicate (n - length s) CHR ''0'' @ s"

definition fixed :: "nat \<Rightarrow> rat \<Rightarrow> string" where
  "fixed n x =
     (let m = nat (round_even (\<bar>x\<bar> * 10 ^ n)) in
      (if x < 0 then ''-'' else []) @ show_nat (m div 10 ^ n)
        @ (if n = 0 then [] else ''.'' @ zero_pad n (show_nat (m mod 10 ^ n))))"

fun format_f :: "nat \<Rightarrow> pyfloat \<Rightarrow> string" where
  "format_f n (Fin x) = fixed n x"
| "format_f n (Inf neg) = (if neg then ''-inf'' else ''inf'')"
| "format_f n NaN = ''nan''"

lemma round_even_int [simp]: "round_even (of_int n) = n"
  by (simp add: round_even_def)

lemma round_even_near: "\<bar>of_int (round_even x) - x\<bar> \<le> 1 / 2"
proof -
  define r where "r = x - of_int \<lfloor>x\<rfloor>"
  have r: "0 \<le> r" "r < 1" by (simp_all add: r_def) linarith
  have "round_even x = \<lfloor>x\<rfloor> \<and> r \<le> 1 / 2 \<or> round_even x = \<lfloor>x\<rfloor> + 1 \<and> 1 / 2 \<le> r"
    by (auto simp: round_even_def Let_def r_def)
  then have "of_int (round_even x) - x = - r \<and> r \<le> 1 / 2 \<or> of_int (round_even x) - x = 1 - r \<and> 1 / 2 \<le> r"
    by (auto simp: r_def)
  with r show ?thesis by (elim disjE) (simp_all add: abs_if)
qed

lemma round_even_mono: "x \<le> y \<Longrightarrow> round_even x \<le> round_even y"
proof -
  assume le: "x \<le> y"
  show ?thesis
  proof (cases "\<lfloor>x\<rfloor> = \<lfloor>y\<rfloor>")
    case True
    with le show ?thesis by (auto simp: round_even_def Let_def)
  next
    case False
    with le have "\<lfloor>x\<rfloor> + 1 \<le> \<lfloor>y\<rfloor>" using floor_mono [OF le] by linarith
    moreover have "round_even x \<le> \<lfloor>x\<rfloor> + 1" "\<lfloor>y\<rfloor> \<le> round_even y" by (auto simp: round_even_def Let_def)
    ultimately show ?thesis by linarith
  qed
qed

end
