(* ===== verification/Allocation_Sites.thy ===== *)
theory Allocation_Sites
  imports Py_Scan Py_Format "HOL-Library.List_Lexorder" "HOL-Library.Char_ord" "HOL-Library.Product_Lexorder"
begin

text \<open>
  \<^verbatim>\<open>blorp/scripts/allocation-sites\<close>: it reads a report of allocation stacks, names their frames with an
  external symbolizer, and prints the busiest sites. The file system, the search path and the symbolizer
  process are parameters: a file is its text or the text of the error that opening it raises, and a process
  run is its status, output and error output or the text of the error that starting it raises.
\<close>

section \<open>The environment\<close>

type_synonym files = "string \<Rightarrow> string + string"

record tools =
  which :: "string \<Rightarrow> bool"
  run_process :: "string list \<Rightarrow> string + (int \<times> string \<times> string)"

text \<open>Reading a text file: its text with universal newlines, or the text of the error.\<close>

definition read_file :: "files \<Rightarrow> string \<Rightarrow> string + string" where
  "read_file fs path = (case fs path of Inl problem \<Rightarrow> Inl problem | Inr raw \<Rightarrow> Inr (universal_newlines raw))"

text \<open>The lines of a text file, as iteration over it gives them (without their newline).\<close>

definition file_lines :: "string \<Rightarrow> string list" where
  "file_lines s = (let parts = split_char newline s in if last parts = [] then butlast parts else parts)"

text \<open>\<open>repr\<close> of a text.\<close>

definition hex2 :: "nat \<Rightarrow> string" where
  "hex2 n = [hex_char (n div 16), hex_char (n mod 16)]"

definition repr_char :: "char \<Rightarrow> char \<Rightarrow> string" where
  "repr_char q c =
     (let n = (of_char c :: nat) in
      if c = q \<or> c = backslash then [backslash, c]
      else if c = newline then [backslash, CHR ''n'']
      else if c = CHR 0x0D then [backslash, CHR ''r'']
      else if c = tab then [backslash, CHR ''t'']
      else if n < 32 \<or> 127 \<le> n \<and> n \<le> 160 \<or> n = 173 then [backslash, CHR ''x''] @ hex2 n
      else [c])"

definition py_repr :: "string \<Rightarrow> string" where
  "py_repr s =
     (let q = (if squote \<in> set s \<and> dquote \<notin> set s then dquote else squote)
      in [q] @ concat (map (repr_char q) s) @ [q])"

definition rjust :: "nat \<Rightarrow> string \<Rightarrow> string" where
  "rjust n s = replicate (n - length s) CHR '' '' @ s"

section \<open>Constants\<close>

definition ALLOCATOR_PREFIX :: string where
  "ALLOCATOR_PREFIX = ''blorp_memory_''"

definition COMPILED_FUNCTION :: re where
  "COMPILED_FUNCTION = seqs [TextStart, Grp 1 (Seq (lit ''blorp_f_'') (Plus (Cls is_digit))), Alt (lit ''.'') TextEnd]"

definition ATOS_LOAD_ADDRESS :: int where
  "ATOS_LOAD_ADDRESS = 0x100000000"

definition SYMBOLIZER_BATCH :: nat where
  "SYMBOLIZER_BATCH = 2000"

definition NO_COMPILED_CALLER :: string where
  "NO_COMPILED_CALLER = ''(no compiled caller)''"

definition DIRECT_ALLOCATION :: string where
  "DIRECT_ALLOCATION = ''(direct)''"

definition fail_sites :: "string \<Rightarrow> 'a result" where
  "fail_sites message = Inl (SystemExit (''error: allocation-sites: '' @ message))"

section \<open>Reading the report\<close>

type_synonym site = "int \<times> int \<times> int \<times> int \<times> int list"

text \<open>\<open>int(s)\<close> and \<open>int(s, 16)\<close> with the text of the error they raise.\<close>

definition int_or_problem :: "string \<Rightarrow> string + int" where
  "int_or_problem s = (case py_int s of
     Inr n \<Rightarrow> Inr n | Inl _ \<Rightarrow> Inl (''invalid literal for int() with base 10: '' @ py_repr s))"

definition int16_or_problem :: "string \<Rightarrow> string + int" where
  "int16_or_problem s = (case int16 s of
     Inr n \<Rightarrow> Inr n | Inl _ \<Rightarrow> Inl (''invalid literal for int() with base 16: '' @ py_repr s))"

definition report_line :: "string \<Rightarrow> string + site" where
  "report_line line =
     (let parts = split_ws line in
      if length parts < 4 then Inl ''fewer than 4 fields''
      else bindE (mapE int_or_problem (take 4 parts)) (\<lambda>ns.
        bindE (mapE int16_or_problem (drop 4 parts)) (\<lambda>frames.
          Inr (ns ! 0, ns ! 1, ns ! 2, ns ! 3, frames))))"

fun report_lines :: "string \<Rightarrow> nat \<Rightarrow> string list \<Rightarrow> site list result" where
  "report_lines path n [] = Inr []"
| "report_lines path n (line # rest) =
     (case report_line line of
        Inl problem \<Rightarrow> fail_sites (path @ '':'' @ show_nat n @ '': malformed report line ('' @ problem @ '')'')
      | Inr site \<Rightarrow> bindE (report_lines path (Suc n) rest) (\<lambda>sites. Inr (site # sites)))"

definition read_report :: "files \<Rightarrow> string \<Rightarrow> site list result" where
  "read_report fs path =
     (case read_file fs path of
        Inl problem \<Rightarrow> fail_sites (''cannot read report: '' @ problem)
      | Inr content \<Rightarrow> report_lines path 1 (file_lines content))"

section \<open>Symbolizing\<close>

definition symbolizer_command :: "tools \<Rightarrow> string \<Rightarrow> int list \<Rightarrow> (string list \<times> nat) result" where
  "symbolizer_command env binary addresses =
     (if which env ''atos'' then
        Inr ([''atos'', ''-o'', binary, ''-l'', hex ATOS_LOAD_ADDRESS]
             @ map (\<lambda>address. hex (ATOS_LOAD_ADDRESS + address - 1)) addresses, 1)
      else if which env ''addr2line'' then
        Inr ([''addr2line'', ''-f'', ''-e'', binary] @ map (\<lambda>address. hex (address - 1)) addresses, 2)
      else fail_sites ''needs atos (macOS) or addr2line (Linux binutils) on PATH'')"

text \<open>\<open>s.split(sep, 1)[0]\<close>: the text before the first occurrence of \<open>sep\<close>.\<close>

definition before :: "string \<Rightarrow> string \<Rightarrow> string" where
  "before s sep = (case find_from s sep 0 of None \<Rightarrow> s | Some j \<Rightarrow> take j s)"

definition function_name :: "string list \<Rightarrow> string" where
  "function_name lines =
     (let name = before (strip (lines ! 0)) '' (in ''
      in if starts_with name ''0x'' \<or> starts_with name ''??'' then ''?'' else name)"

text \<open>The slices of \<open>n\<close> elements, the last one possibly shorter.\<close>

function batches :: "nat \<Rightarrow> 'a list \<Rightarrow> 'a list list" where
  "batches n xs = (if xs = [] \<or> n = 0 then [] else take n xs # batches n (drop n xs))"
  by pat_completeness auto
termination
  by (relation "measure (\<lambda>(n, xs). length xs)") auto

declare batches.simps [simp del]

definition symbolize_batch :: "tools \<Rightarrow> string \<Rightarrow> int list \<Rightarrow> (int, string) dict \<Rightarrow> (int, string) dict result" where
  "symbolize_batch env binary batch names =
     bindE (symbolizer_command env binary batch) (\<lambda>(command, lines_per_address).
       (let tool = command ! 0 in
        case run_process env command of
          Inl problem \<Rightarrow> fail_sites (''cannot run '' @ tool @ '': '' @ problem)
        | Inr (status, out, err) \<Rightarrow>
            if status \<noteq> 0
            then fail_sites (tool @ '' failed with status '' @ show_int status @ '': '' @ strip err)
            else let output = splitlines out in
              if length output \<noteq> length batch * lines_per_address
              then fail_sites (tool @ '' printed '' @ show_nat (length output) @ '' lines for ''
                     @ show_nat (length batch) @ '' addresses, expected '' @ show_nat (length batch * lines_per_address))
              else Inr (fold (\<lambda>(i, address). dict_put address
                       (function_name (cut output (i * lines_per_address) ((i + 1) * lines_per_address))))
                     (enumerate 0 batch) names)))"

definition sites_symbolize :: "tools \<Rightarrow> string \<Rightarrow> int list \<Rightarrow> (int, string) dict result" where
  "sites_symbolize env binary addresses =
     foldE (symbolize_batch env binary) (batches SYMBOLIZER_BATCH (sort (remdups addresses))) []"

section \<open>Naming sites\<close>

definition COMMENT_THEN_DEFINITION :: re where
  "COMMENT_THEN_DEFINITION = seqs [lit ''/*'', Star (Cls is_space), Grp 1 (LazyPlus (none_of ''*'')), Star (Cls is_space),
     lit ''*/'', Lazy (none_of '';{}()/''), WordBoundary, lit ''blorp_f_'', Grp 2 (Plus (Cls is_digit)),
     Star (Cls is_space), lit ''('']"

definition function_comments :: "string \<Rightarrow> (string, string) dict" where
  "function_comments source =
     fold (\<lambda>m. dict_put (''blorp_f_'' @ grp source m 2) (grp source m 1))
       (find_matches COMMENT_THEN_DEFINITION source) []"

definition read_function_comments :: "files \<Rightarrow> string \<Rightarrow> string + (string, string) dict" where
  "read_function_comments fs path =
     (case read_file fs path of Inl problem \<Rightarrow> Inl problem | Inr source \<Rightarrow> Inr (function_comments source))"

text \<open>The loop over the frames; \<open>callee\<close> is the name of the frame before, if any.\<close>

fun classify_from :: "string option \<Rightarrow> int list \<Rightarrow> (int, string) dict \<Rightarrow> (string \<times> string) result" where
  "classify_from callee [] names = Inr (NO_COMPILED_CALLER, DIRECT_ALLOCATION)"
| "classify_from callee (frame # frames) names =
     bindE (dict_index names frame) (\<lambda>name.
       case re_match COMPILED_FUNCTION name of
         Some m \<Rightarrow>
           Inr (grp name m 1, (case callee of
               None \<Rightarrow> DIRECT_ALLOCATION
             | Some helper \<Rightarrow> if starts_with helper ALLOCATOR_PREFIX then DIRECT_ALLOCATION else helper))
       | None \<Rightarrow> classify_from (Some name) frames names)"

definition classify :: "int list \<Rightarrow> (int, string) dict \<Rightarrow> (string \<times> string) result" where
  "classify frames names = classify_from None frames names"

section \<open>Totals and tables\<close>

type_synonym triple = "int \<times> int \<times> int"

definition add_triple :: "triple \<Rightarrow> triple \<Rightarrow> triple" where
  "add_triple x y = (fst y + fst x, fst (snd y) + fst (snd x), snd (snd y) + snd (snd x))"

definition by_key :: "('x \<Rightarrow> 'k) \<Rightarrow> ('x \<times> triple) list \<Rightarrow> ('k, triple) dict" where
  "by_key key rows = tally (0, 0, 0) (\<lambda>(x, t). key x) (\<lambda>(x, t). add_triple t) rows"

definition share :: "int \<Rightarrow> int \<Rightarrow> pyfloat result" where
  "share count all_count =
     bindE (float_of_int count) (\<lambda>c. bindE (float_of_int all_count) (\<lambda>t. fdiv (fmul (Fin 100) c) t))"

definition table_row :: "string \<Rightarrow> triple \<Rightarrow> int \<Rightarrow> string result" where
  "table_row label t all_count =
     (let (count, size, resizes) = t in
      bindE (share count (max all_count 1)) (\<lambda>s.
        Inr (rjust 12 (show_int count) @ '' '' @ rjust 5 (format_f 1 s) @ ''% '' @ rjust 14 (show_int size)
             @ '' '' @ rjust 10 (show_int resizes) @ ''  '' @ label)))"

definition print_table :: "string \<Rightarrow> ('k :: linorder, triple) dict \<Rightarrow> ('k \<Rightarrow> string) \<Rightarrow> int \<Rightarrow> int \<Rightarrow> string list result" where
  "print_table title totals labels limit total_count =
     (let ranked = sort_key (\<lambda>(k, t). (- fst t, k)) totals in
      bindE (mapE (\<lambda>(k, t). table_row (labels k) t total_count) (pyslice ranked 0 limit)) (\<lambda>rows.
        Inr ([title, rjust 12 ''allocs'' @ '' '' @ rjust 6 ''%'' @ '' '' @ rjust 14 ''bytes'' @ '' ''
                @ rjust 10 ''resizes'' @ ''  site''] @ rows @ [[]])))"

definition site_label :: "(string, string) dict \<Rightarrow> string \<Rightarrow> string" where
  "site_label comments site =
     (case dict_get comments site of None \<Rightarrow> site | Some comment \<Rightarrow> comment @ '' ('' @ site @ '')'')"

text \<open>\<open>main\<close> after argument parsing: the lines it prints.\<close>

record sites_arguments =
  a_report :: string
  a_binary :: string
  a_generated_c :: "string option"
  a_top :: int

definition sites_comments :: "files \<Rightarrow> string option \<Rightarrow> (string, string) dict result" where
  "sites_comments fs generated_c =
     (case generated_c of
        None \<Rightarrow> Inr []
      | Some path \<Rightarrow> if path = [] then Inr [] else
          (case read_function_comments fs path of
             Inl problem \<Rightarrow> fail_sites (''cannot read generated C: '' @ problem)
           | Inr comments \<Rightarrow> Inr comments))"

definition classified :: "site list \<Rightarrow> (int, string) dict \<Rightarrow> ((string \<times> string) \<times> triple) list result" where
  "classified sites names =
     mapE (\<lambda>(count, size, resizes, resized, frames).
       bindE (classify frames names) (\<lambda>key. Inr (key, (count, size, resizes)))) sites"

definition sites_main :: "files \<Rightarrow> tools \<Rightarrow> sites_arguments \<Rightarrow> string list result" where
  "sites_main fs env arguments =
     bindE (read_report fs (a_report arguments)) (\<lambda>sites.
     bindE (sites_symbolize env (a_binary arguments) (concat (map (\<lambda>(c, s, r, z, frames). frames) sites))) (\<lambda>names.
     bindE (sites_comments fs (a_generated_c arguments)) (\<lambda>comments.
     bindE (classified sites names) (\<lambda>rows.
       let totals = fold add_triple (map snd rows) (0, 0, 0);
           label = site_label comments
       in bindE (print_table ''By site'' (by_key fst rows) label (a_top arguments) (fst totals)) (\<lambda>sites_table.
          bindE (print_table ''By site and immediate helper'' (by_key (\<lambda>key. key) rows)
                   (\<lambda>key. label (fst key) @ '' <- '' @ snd key) (a_top arguments) (fst totals)) (\<lambda>helpers_table.
            Inr ([''total: '' @ show_int (fst totals) @ '' allocations, '' @ show_int (fst (snd totals))
                  @ '' bytes requested, '' @ show_int (snd (snd totals)) @ '' resizes, '' @ show_nat (length sites)
                  @ '' distinct stacks'', []] @ sites_table @ helpers_table)))))))"

end
