(* ===== verification/Report_Base.thy ===== *)
theory Report_Base
  imports Allocation_Sites
begin

text \<open>
  The parts of \<^verbatim>\<open>blorp/scripts/attribution/report.py\<close> that its stages share: reading files, labels of
  functions, markdown tables and shares.
\<close>

definition fail_report :: "string \<Rightarrow> 'a result" where
  "fail_report message = Inl (SystemExit (''error: report: '' @ message))"

text \<open>\<open>os.path.join\<close> of two parts, and of a directory with a stage and a file.\<close>

definition path_join :: "string \<Rightarrow> string \<Rightarrow> string" where
  "path_join a b =
     (if starts_with b ''/'' then b else if a = [] \<or> last a = CHR ''/'' then a @ b else a @ ''/'' @ b)"

definition stage_file :: "string \<Rightarrow> string \<Rightarrow> string \<Rightarrow> string" where
  "stage_file directory stage name = path_join (path_join directory stage) name"

definition read :: "files \<Rightarrow> string \<Rightarrow> string result" where
  "read fs path =
     (case read_file fs path of
        Inl problem \<Rightarrow> fail_report (''cannot read '' @ path @ '': '' @ problem)
      | Inr content \<Rightarrow> Inr content)"

definition function_labels :: "files \<Rightarrow> string \<Rightarrow> (string, string) dict result" where
  "function_labels fs directory =
     (case read_function_comments fs (path_join directory ''self.c'') of
        Inl problem \<Rightarrow> Inl OSError
      | Inr comments \<Rightarrow> Inr comments)"

definition label_of :: "(string, string) dict \<Rightarrow> int \<Rightarrow> string" where
  "label_of labels f =
     (if f \<noteq> 0 then get_default (''blorp_f_'' @ show_int f) labels (''blorp_f_'' @ show_int f)
      else ''(runtime, no Blorp caller)'')"

definition table_line :: "string list \<Rightarrow> string" where
  "table_line cells = ''| '' @ join '' | '' cells @ '' |''"

definition table :: "string list \<Rightarrow> string list list \<Rightarrow> string list \<Rightarrow> string" where
  "table headers rows align =
     join [newline] ([table_line headers, table_line (map (\<lambda>a. if a = ''r'' then ''---:'' else ''---'') align)]
       @ map table_line rows) @ [newline]"

definition percent :: "int \<Rightarrow> int \<Rightarrow> string result" where
  "percent part all_count =
     (if all_count \<noteq> 0 then bindE (share part all_count) (\<lambda>s. Inr (format_f 1 s @ ''%'')) else Inr ''0.0%'')"

text \<open>\<open>w in s\<close> for texts, and \<open>s.split(sep, 1)\<close>.\<close>

definition contains :: "string \<Rightarrow> string \<Rightarrow> bool" where
  "contains s w = (find_from s w 0 \<noteq> None)"

definition split_once :: "string \<Rightarrow> string \<Rightarrow> string list" where
  "split_once s sep =
     (case find_from s sep 0 of None \<Rightarrow> [s] | Some j \<Rightarrow> [take j s, drop (j + length sep) s])"

text \<open>A cell \<open>[calls, units]\<close> of a table, and adding to it.\<close>

type_synonym cell2 = "int \<times> int"

definition add2 :: "cell2 \<Rightarrow> cell2 \<Rightarrow> cell2" where
  "add2 x y = (fst y + fst x, snd y + snd x)"

interpretation calls: additive "(0, 0) :: cell2" "\<lambda>(x, c). add2 c" fst "\<lambda>(x, c). fst c"
  by unfold_locales (auto simp: add2_def)

interpretation units: additive "(0, 0) :: cell2" "\<lambda>(x, c). add2 c" snd "\<lambda>(x, c). snd c"
  by unfold_locales (auto simp: add2_def)

text \<open>\<open>sorted(items, key=lambda i: -f(i))[:limit]\<close>.\<close>

definition ranked :: "('a \<Rightarrow> int) \<Rightarrow> int \<Rightarrow> 'a list \<Rightarrow> 'a list" where
  "ranked f limit xs = pyslice (sort_key (\<lambda>x. - f x) xs) 0 limit"

text \<open>A ranking holds the first rows of the sorted list: none it leaves out is larger.\<close>

lemma pyslice_take: "0 \<le> n \<Longrightarrow> pyslice xs 0 n = take (nat n) xs"
  by (simp add: pyslice_def cut_def Let_def)

lemma ranked_top:
  assumes "0 \<le> limit" and "x \<in> set (ranked f limit xs)" and "y \<in> set xs" and "y \<notin> set (ranked f limit xs)"
  shows "f y \<le> f x"
proof -
  let ?s = "sort_key (\<lambda>x. - f x) xs"
  have rk: "ranked f limit xs = take (nat limit) ?s" using assms(1) by (simp only: ranked_def pyslice_take)
  have "set ?s = set (take (nat limit) ?s) \<union> set (drop (nat limit) ?s)" by (metis append_take_drop_id set_append)
  moreover have "y \<in> set ?s" using assms(3) by simp
  ultimately have "y \<in> set (drop (nat limit) ?s)" using assms(4) unfolding rk by blast
  from take_sort_key_max [OF assms(2) [unfolded rk] this] show ?thesis by simp
qed

lemma ranked_subset: "0 \<le> limit \<Longrightarrow> set (ranked f limit xs) \<subseteq> set xs"
  by (auto simp: ranked_def pyslice_take dest: in_set_takeD)

end
