(* ===== verification/Report_Copies.thy ===== *)
theory Report_Copies
  imports Report_Base
begin

text \<open>
  The \<open>copies\<close> stage of \<^verbatim>\<open>report.py\<close>: it symbolizes the rows that the instrumented program wrote, sums them per
  call site, path and function, and prints the tables.
\<close>

section \<open>Symbolizing\<close>

definition LOCATED :: re where
  "LOCATED = seqs [lit '':'', Grp 1 (Plus (Cls is_digit)), Opt (lit '')''), Star (Cls is_space), TextEnd]"

text \<open>The answer of one address: the function and the line.\<close>

definition located :: "string list \<Rightarrow> (string \<times> int) result" where
  "located answer =
     (case re_search LOCATED (last answer) of
        None \<Rightarrow> fail_report (''no line number in symbolizer output: '' @ last answer)
      | Some m \<Rightarrow> bindE (py_int (grp (last answer) m 1)) (\<lambda>line. Inr (function_name answer, line)))"

definition locate_batch :: "tools \<Rightarrow> string \<Rightarrow> int list \<Rightarrow> (int, string \<times> int) dict \<Rightarrow> (int, string \<times> int) dict result" where
  "locate_batch env binary batch places =
     bindE (symbolizer_command env binary batch) (\<lambda>(command, per_address).
       (case run_process env command of
          Inl problem \<Rightarrow> Inl OSError
        | Inr (status, out, err) \<Rightarrow>
            (let lines = splitlines out in
             if status \<noteq> 0 \<or> length lines \<noteq> length batch * per_address
             then fail_report (command ! 0 @ '' failed ('' @ show_int status @ ''): '' @ strip err)
             else foldE (\<lambda>(i, offset) d.
                 bindE (located (cut lines (i * per_address) ((i + 1) * per_address))) (\<lambda>found.
                   Inr (dict_put offset found d))) (enumerate 0 batch) places)))"

definition symbolize :: "tools \<Rightarrow> string \<Rightarrow> int list \<Rightarrow> (int, string \<times> int) dict result" where
  "symbolize env binary offsets =
     foldE (locate_batch env binary) (batches SYMBOLIZER_BATCH (sort (remdups offsets))) []"

section \<open>Reading the profile\<close>

type_synonym prof_line = "string \<times> int \<times> int \<times> int"

text \<open>One line of \<open>prof.tsv\<close>, from the rows and the load address so far.\<close>

definition read_prof_line :: "string \<Rightarrow> prof_line list \<times> int option \<Rightarrow> (prof_line list \<times> int option) result" where
  "read_prof_line line st =
     (let (rows, load) = st in
      if starts_with line ''#load'' then
        (let parts = split_ws line in
         if length parts < 2 then Inl IndexError
         else bindE (int16 (parts ! 1)) (\<lambda>a. Inr (rows, Some a)))
      else if line \<noteq> [] \<and> \<not> starts_with line ''#'' then
        (case split_ws line of
           [kind, address, hits, units] \<Rightarrow>
             bindE (int16 address) (\<lambda>a. bindE (py_int hits) (\<lambda>h. bindE (py_int units) (\<lambda>u.
               Inr (rows @ [(kind, a, h, u)], load))))
         | _ \<Rightarrow> Inl ValueError)
      else Inr (rows, load))"

definition read_prof :: "string \<Rightarrow> (prof_line list \<times> int) result" where
  "read_prof content =
     bindE (foldE read_prof_line (splitlines content) ([], None)) (\<lambda>(rows, load).
       case load of None \<Rightarrow> fail_report ''prof.tsv has no #load line'' | Some a \<Rightarrow> Inr (rows, a))"

type_synonym copy_site = "string \<times> string \<times> int"

text \<open>The site of a row and its cell, or nothing for the fallback copy inside an in-place helper.\<close>

definition copy_site :: "(string, string) dict \<Rightarrow> (int, string \<times> int) dict \<Rightarrow> int \<Rightarrow> prof_line
    \<Rightarrow> (copy_site \<times> cell2) option result" where
  "copy_site labels places load row =
     (let (kind, address, hits, units) = row in
      bindE (dict_index places (address - load)) (\<lambda>(f, line).
        if ends_with kind ''borrowed'' \<and> contains f ''take_left'' then Inr None
        else Inr (Some ((get_default f labels f, kind, line), (hits, units)))))"

definition sum_cells :: "('k \<times> cell2) list \<Rightarrow> ('k, cell2) dict" where
  "sum_cells rows = tally (0, 0) fst (\<lambda>(x, c). add2 c) rows"

definition read_copy_rows :: "files \<Rightarrow> tools \<Rightarrow> string \<Rightarrow> (copy_site, cell2) dict result" where
  "read_copy_rows fs env directory =
     bindE (function_labels fs directory) (\<lambda>labels.
     bindE (read fs (stage_file directory ''copies'' ''prof.tsv'')) (\<lambda>content.
     bindE (read_prof content) (\<lambda>(rows, load).
     bindE (symbolize env (stage_file directory ''copies'' ''binary'') (map (\<lambda>(k, a, h, u). a - load) rows)) (\<lambda>places.
     bindE (mapE (copy_site labels places load) rows) (\<lambda>sites.
       Inr (sum_cells (List.map_filter (\<lambda>x. x) sites)))))))"

section \<open>The tables\<close>

definition COPY_TARGETS :: "string list" where
  "COPY_TARGETS = [''emit.append_input_owners'', ''emit.append_join'', ''emit.append_selection'', ''emit.append_selection_body'',
     ''emit.append_loop'', ''emit.append_loop_exit'', ''emit.emit'', ''text.concat'']"

definition NAMED_ROWS_PER_FUNCTION :: int where
  "NAMED_ROWS_PER_FUNCTION = 6"

definition by_path :: "(copy_site, cell2) dict \<Rightarrow> (string, cell2) dict" where
  "by_path sites = sum_cells (map (\<lambda>((label, kind, line), c). (kind, c)) sites)"

definition by_function :: "(copy_site, cell2) dict \<Rightarrow> (string \<times> string, cell2) dict" where
  "by_function sites = sum_cells (map (\<lambda>((label, kind, line), c). ((kind, label), c)) sites)"

definition shown_statement :: "string list \<Rightarrow> int \<Rightarrow> string" where
  "shown_statement statements line =
     (let statement = (if 0 < line \<and> line \<le> int (length statements) then strip (statements ! nat (line - 1)) else []);
          statement = (if length statement \<le> 100 then statement else take 97 statement @ ''...'')
      in ''`'' @ replace_char CHR ''|'' [backslash, CHR ''|''] statement @ ''`'')"

definition statement_rows :: "(copy_site \<times> cell2) list \<Rightarrow> string list \<Rightarrow> string list list" where
  "statement_rows sites statements =
     map (\<lambda>((label, kind, line), (hits, units)).
       [kind, label, show_int line, number hits, number units, shown_statement statements line]) sites"

definition copying :: "string \<Rightarrow> bool" where
  "copying kind = (\<not> ends_with kind ''unique'')"

definition named_sites :: "(copy_site, cell2) dict \<Rightarrow> (string \<times> string, cell2) dict \<Rightarrow> string list \<Rightarrow> string" where
  "named_sites sites functions statements =
     join [newline]
       [''### Named functions: copying paths'' @ [newline],
        table [''Function'', ''Path'', ''Calls'', ''Copied'']
          (concat (map (\<lambda>name. map (\<lambda>((kind, label), (h, u)). [name, kind, number h, number u])
             (filter (\<lambda>((kind, label), c). label = name \<and> copying kind) (sort_key fst functions))) COPY_TARGETS))
          [''l'', ''l'', ''r'', ''r''],
        ''### Named functions: every path at their busiest statements (up to '' @ show_int NAMED_ROWS_PER_FUNCTION
          @ '' per function)'' @ [newline],
        table [''Path'', ''Function'', ''statements.c line'', ''Calls'', ''Units'', ''Statement'']
          (statement_rows (concat (map (\<lambda>name. ranked (\<lambda>(k, c). snd c) NAMED_ROWS_PER_FUNCTION
             (filter (\<lambda>((label, kind, line), c). label = name) sites)) COPY_TARGETS)) statements)
          [''l'', ''l'', ''r'', ''r'', ''r'', ''l'']]"

definition copies_text :: "(copy_site, cell2) dict \<Rightarrow> string list \<Rightarrow> int \<Rightarrow> string" where
  "copies_text sites statements limit =
     (let paths = by_path sites; functions = by_function sites; path = get_default (0, 0) paths in
      join [newline]
       [''### Copies by path'' @ [newline],
        table [''Path'', ''Calls'', ''Copied'']
          (map (\<lambda>(k, label, unit). [label, number (fst (path k)), number (snd (path k)) @ '' '' @ unit])
             [(''list_borrowed'', ''List borrowed update'', ''slots''), (''list_fallback'', ''List shared fallback'', ''slots''),
              (''string_borrowed'', ''String borrowed update'', ''bytes''), (''string_fallback'', ''String shared fallback'', ''bytes'')])
          [''l'', ''r'', ''r''],
        table [''Path'', ''Calls'', ''Length the copy would have cost'']
          (map (\<lambda>(k, label). [label, number (fst (path k)), number (snd (path k))])
             [(''list_unique'', ''List in place''), (''string_unique'', ''String in place'')])
          [''l'', ''r'', ''r''],
        ''### Copies by function (borrowed update and shared fallback; top '' @ show_int limit @ '' by units)'' @ [newline],
        table [''Path'', ''Function'', ''Calls'', ''Copied'']
          (map (\<lambda>((kind, label), (h, u)). [kind, label, number h, number u])
             (ranked (\<lambda>(k, c). snd c) limit (filter (\<lambda>((kind, label), c). copying kind) functions)))
          [''l'', ''l'', ''r'', ''r''],
        named_sites sites functions statements,
        ''### Copy sites (borrowed update and shared fallback; top '' @ show_int limit @ '' statements by units)'' @ [newline],
        table [''Path'', ''Function'', ''statements.c line'', ''Calls'', ''Copied'', ''Statement'']
          (statement_rows (ranked (\<lambda>(k, c). snd c) limit
             (filter (\<lambda>((label, kind, line), c). copying kind) sites)) statements)
          [''l'', ''l'', ''r'', ''r'', ''r'', ''l'']])"

definition copies :: "files \<Rightarrow> tools \<Rightarrow> string \<Rightarrow> int \<Rightarrow> string result" where
  "copies fs env directory limit =
     bindE (read_copy_rows fs env directory) (\<lambda>sites.
     bindE (read fs (stage_file directory ''copies'' ''statements.c'')) (\<lambda>content.
       Inr (copies_text sites (split_char newline content) limit)))"

end
