(* ===== verification/Report_RC.thy ===== *)
theory Report_RC
  imports Report_Base
begin

text \<open>
  The \<open>rc\<close> stage of \<^verbatim>\<open>report.py\<close>: reading the reference-count totals by kind and the tagged counts, and the
  tables by kind, by source, by pair, by origin and by function.
\<close>

section \<open>Constants\<close>

definition RC_KINDS :: "string list" where
  "RC_KINDS = [''record'', ''list'', ''union'', ''string'']"

definition RC_GROUPS :: "(string \<times> string list) list" where
  \<open>RC_GROUPS =
     [(''Projection acquisition'', [''acquire:projection'']),
      (''Stored-field acquisition'', [''acquire:stored'']),
      (''Borrowed-return acquisition (end of a block)'', [''acquire:block_end'']),
      (''Loop-entry acquisition'', [''acquire:loop_entry'']),
      (''Call transfer (acquisition for an owned parameter)'', [''acquire:call'']),
      (''Explicit drop at last use'', [''drop:'']),
      (''Cascade from a parent'' @ [squote] @ ''s free'', [''cascade:'']),
      (''List `get` (hands out a second reference)'', [''runtime_list:get'']),
      (''Other list helpers (append, concat, set, ...)'', [''runtime_list:'']),
      (''Other runtime helper (String literals, concat)'', [''runtime_other'']),
      (''Unattributed'', [''unmarked'', ''untagged''])]\<close>

definition PAIR_REASONS :: "string list" where
  "PAIR_REASONS = [''stored'', ''block_end'', ''call'', ''loop_entry'']"

section \<open>Reading\<close>

type_synonym tag_key = "string \<times> string \<times> int \<times> string"
type_synonym tagged = "(tag_key, int) dict"
type_synonym kinds = "(string \<times> string, int) dict"
type_synonym cells = "(string \<times> string, int) dict"

definition read_category :: "string \<Rightarrow> (int, string) dict \<Rightarrow> (int, string) dict result" where
  "read_category line d =
     (case split_char tab line of
        [index, name] \<Rightarrow> bindE (py_int index) (\<lambda>i. Inr (dict_put i name d))
      | _ \<Rightarrow> Inl ValueError)"

definition read_tagged :: "(int, string) dict \<Rightarrow> string \<Rightarrow> tagged \<Rightarrow> tagged result" where
  "read_tagged categories line d =
     (case split_char tab line of
        [kind, direction, f, category, count] \<Rightarrow>
          bindE (py_int f) (\<lambda>fn. bindE (py_int category) (\<lambda>c.
            bindE (dict_index categories c) (\<lambda>name. bindE (py_int count) (\<lambda>n.
              let key = (kind, direction, fn, name) in Inr (dict_put key (get_default 0 d key + n) d)))))
      | _ \<Rightarrow> Inl ValueError)"

definition read_kind :: "string \<Rightarrow> kinds \<Rightarrow> kinds result" where
  "read_kind line d =
     (case split_char tab line of
        [kind, direction, count] \<Rightarrow> bindE (py_int count) (\<lambda>n. Inr (dict_put (kind, direction) n d))
      | _ \<Rightarrow> Inl ValueError)"

definition read_rc :: "files \<Rightarrow> string \<Rightarrow> (tagged \<times> kinds) result" where
  "read_rc fs directory =
     bindE (read fs (stage_file directory ''rc'' ''categories.tsv'')) (\<lambda>categories_text.
     bindE (foldE read_category (splitlines categories_text) []) (\<lambda>categories.
     bindE (read fs (stage_file directory ''rc'' ''tagged.tsv'')) (\<lambda>tagged_text.
     bindE (foldE (read_tagged categories) (splitlines tagged_text) []) (\<lambda>tagged.
     bindE (read fs (stage_file directory ''rc'' ''kinds.tsv'')) (\<lambda>kinds_text.
     bindE (foldE read_kind (splitlines kinds_text) []) (\<lambda>kinds. Inr (tagged, kinds)))))))"

section \<open>Grouping\<close>

definition group_of :: "string \<Rightarrow> string result" where
  "group_of category =
     (case filter (\<lambda>(label, pres). \<exists>p \<in> set pres. starts_with category p) RC_GROUPS of
        [] \<Rightarrow> fail_report (''category '' @ category @ '' belongs to no group'')
      | (label, pres) # _ \<Rightarrow> Inr label)"

text \<open>A \<open>defaultdict\<close> of \<open>defaultdict(int)\<close>, \<open>d[g][k] += c\<close> for each row.\<close>

definition add_count :: "'k \<Rightarrow> int \<Rightarrow> ('k, int) dict \<Rightarrow> ('k, int) dict" where
  "add_count k c d = dict_put k (get_default 0 d k + c) d"

definition nested :: "('g \<times> 'k \<times> int) list \<Rightarrow> ('g, ('k, int) dict) dict" where
  "nested rows = tally [] (\<lambda>(g, k, c). g) (\<lambda>(g, k, c). add_count k c) rows"

definition counted :: "('k \<times> int) list \<Rightarrow> ('k, int) dict" where
  "counted rows = tally 0 fst (\<lambda>(k, c) n. n + c) rows"

abbreviation total_of :: "('k, int) dict \<Rightarrow> int" where
  "total_of d \<equiv> sum_list (map snd d)"

definition cell :: "cells \<Rightarrow> string \<Rightarrow> string" where
  "cell cells kind = number (get_default 0 cells (kind, ''inc'')) @ '' / '' @ number (get_default 0 cells (kind, ''dec''))"

definition by_kind_rows :: "(string \<times> cells) list \<Rightarrow> int \<Rightarrow> string list list result" where
  "by_kind_rows groups grand =
     mapE (\<lambda>(label, cells). bindE (percent (total_of cells) grand) (\<lambda>p.
       Inr ([label, number (total_of cells), p] @ map (cell cells) RC_KINDS))) groups"

section \<open>The tables\<close>

definition all_kinds :: "string list" where
  "all_kinds = RC_KINDS @ [''other'']"

definition summed :: "tagged \<Rightarrow> string \<Rightarrow> string \<Rightarrow> int" where
  "summed tagged kind direction =
     sum_list (map snd (filter (\<lambda>((k, d, f, category), c). k = kind \<and> d = direction) tagged))"

definition mismatches :: "tagged \<Rightarrow> kinds \<Rightarrow> string list result" where
  "mismatches tagged kinds =
     bindE (mapE (\<lambda>(kind, direction).
        bindE (dict_index kinds (kind, direction)) (\<lambda>n.
          let s = summed tagged kind direction in
          Inr (if s \<noteq> n then [kind @ '' '' @ direction @ '': tagged '' @ show_int s @ '', kinds-only '' @ show_int n] else [])))
        (List.product all_kinds [''inc'', ''dec''])) (\<lambda>found. Inr (concat found))"

definition rc_kinds :: "kinds \<Rightarrow> tagged \<Rightarrow> (string \<times> int) result" where
  "rc_kinds kinds tagged =
     bindE (mapE (\<lambda>kind. bindE (dict_index kinds (kind, ''inc'')) (\<lambda>inc.
              bindE (dict_index kinds (kind, ''dec'')) (\<lambda>dec. Inr (kind, inc, dec)))) all_kinds) (\<lambda>counts.
       let grand = sum_list (map (\<lambda>(kind, inc, dec). inc + dec) counts);
           rows = map (\<lambda>(kind, inc, dec). [kind, number inc, number dec, number (inc + dec)]) counts
             @ [[''total'', number (sum_list (map (\<lambda>(kind, inc, dec). inc) counts)),
                 number (sum_list (map (\<lambda>(kind, inc, dec). dec) counts)), number grand]]
       in bindE (mismatches tagged kinds) (\<lambda>wrong.
         let verdict = (if wrong = [] then ''yes, every kind and direction'' else ''NO: '' @ join ''; '' wrong)
         in Inr (''### Atomic operations by kind'' @ [newline, newline]
                 @ table [''Kind'', ''Increments'', ''Decrements'', ''Total''] rows [''l'', ''r'', ''r'', ''r'']
                 @ [newline] @ ''Tagged counts sum to the kind-only counts: **'' @ verdict @ ''**.'' @ [newline], grand)))"

definition grouped_rows :: "tagged \<Rightarrow> (string \<times> (string \<times> string) \<times> int) list result" where
  "grouped_rows tagged =
     mapE (\<lambda>((kind, direction, f, category), count).
       bindE (group_of category) (\<lambda>g. Inr (g, (kind, direction), count))) tagged"

definition rc_sources :: "tagged \<Rightarrow> int \<Rightarrow> string result" where
  "rc_sources tagged grand =
     bindE (grouped_rows tagged) (\<lambda>rows.
       let grouped = nested rows in
       bindE (by_kind_rows (map (\<lambda>(label, pres). (label, get_default [] grouped label)) RC_GROUPS) grand) (\<lambda>rows.
         Inr (''### Atomic operations by source (increments / decrements per data kind)'' @ [newline, newline]
              @ table ([''Source'', ''Operations'', ''Share''] @ RC_KINDS) rows [''l'', ''r'', ''r'', ''r'', ''r'', ''r'', ''r''])))"

definition projection_pairs :: "tagged \<Rightarrow> cells" where
  "projection_pairs tagged =
     counted (map (\<lambda>((kind, direction, f, category), count). ((kind, direction), count))
       (filter (\<lambda>((kind, direction, f, category), count).
          direction = ''inc'' \<and> category = ''acquire:projection''
          \<or> direction = ''dec'' \<and> starts_with category ''drop:projection'') tagged))"

definition reason_pairs :: "tagged \<Rightarrow> string \<Rightarrow> cells" where
  "reason_pairs tagged reason =
     counted (concat (map (\<lambda>((kind, direction, f, category), count).
       (if direction = ''inc'' \<and> starts_with category (''acquire:'' @ reason @ '':'') \<and> ends_with category ''+pair''
        then [((kind, ''inc''), count)] else [])
       @ (if direction = ''dec'' \<and> ends_with category (''+pair:'' @ reason) then [((kind, ''dec''), count)] else [])) tagged))"

definition pair_totals :: "tagged \<Rightarrow> cells" where
  "pair_totals tagged = counted (concat (map (reason_pairs tagged) PAIR_REASONS))"

definition pair_mismatch :: "tagged \<Rightarrow> string \<Rightarrow> int" where
  "pair_mismatch tagged kind =
     sum_list (map snd (filter (\<lambda>((k, direction, f, category), c).
       k = kind \<and> direction = ''inc'' \<and> ends_with category ''+pair'') tagged))
     - get_default 0 (pair_totals tagged) (kind, ''dec'')"

definition rc_pairs :: "tagged \<Rightarrow> int \<Rightarrow> string result" where
  "rc_pairs tagged grand =
     (let groups = [(''Projection acquired, owner later dropped'', projection_pairs tagged)]
        @ concat (map (\<lambda>reason. let cells = reason_pairs tagged reason in
            if cells = [] then [] else [(''Move candidate, acquisition reason `'' @ reason @ ''`'', cells)]) PAIR_REASONS)
        @ [(''Move candidates, all reasons'', pair_totals tagged)]
      in bindE (by_kind_rows groups grand) (\<lambda>rows.
        Inr (''### Acquire-then-drop pairs'' @ [newline, newline]
             @ ''A move candidate is an acquisition from an owner whose drop follows in the ''
             @ ''same operation list with at most one definition between, so a move would replace both. Each drop is ''
             @ ''filed under the reason of its own partner acquisition, so both columns of a row are measured. The projection ''
             @ ''row overlaps the others when a projected owner is acquired again from.'' @ [newline, newline]
             @ table ([''Pairs'', ''Operations'', ''Share''] @ RC_KINDS) rows [''l'', ''r'', ''r'', ''r'', ''r'', ''r'', ''r'']
             @ [newline] @ ''Acquisitions minus drops in the move-candidate pairs, by kind: ''
             @ join '', '' (map (\<lambda>k. k @ '' '' @ number (pair_mismatch tagged k)) RC_KINDS) @ ''.'' @ [newline])))"

definition origin_rows :: "tagged \<Rightarrow> (string \<times> string \<times> int) list" where
  "origin_rows tagged =
     map (\<lambda>((kind, direction, f, category), count). (hd (split_char CHR ''+'' (drop 5 category)), kind, count))
       (filter (\<lambda>((kind, direction, f, category), count). starts_with category ''drop:'') tagged)"

definition rc_origins :: "tagged \<Rightarrow> string" where
  "rc_origins tagged =
     ''### Explicit drops by the origin of the dropped owner'' @ [newline, newline]
     @ table ([''Origin'', ''Drops''] @ RC_KINDS)
         (map (\<lambda>(origin, c). [origin, number (total_of c)] @ map (\<lambda>k. number (get_default 0 c k)) RC_KINDS)
           (sort_key (\<lambda>(origin, c). - total_of c) (nested (origin_rows tagged))))
         [''l'', ''r'', ''r'', ''r'', ''r'', ''r'']"

definition record_count :: "tagged \<Rightarrow> string \<Rightarrow> int" where
  "record_count tagged pre =
     sum_list (map snd (filter (\<lambda>((k, d, f, category), c). k = ''record'' \<and> starts_with category pre) tagged))"

definition record_total :: "kinds \<Rightarrow> int result" where
  "record_total kinds =
     bindE (dict_index kinds (''record'', ''inc'')) (\<lambda>inc. bindE (dict_index kinds (''record'', ''dec'')) (\<lambda>dec. Inr (inc + dec)))"

definition rc_reuse_pool :: "tagged \<Rightarrow> kinds \<Rightarrow> string result" where
  "rc_reuse_pool tagged kinds =
     (let cascade = record_count tagged ''cascade:''; stored = record_count tagged ''acquire:stored'' in
      bindE (record_total kinds) (\<lambda>all_count.
      bindE (percent (cascade + stored) all_count) (\<lambda>p.
        Inr (''### Record RC work a reused record cell could skip'' @ [newline, newline]
             @ ''Record decrements in cascades ('' @ number cascade @ '', any parent kind) plus record increments for stored fields (''
             @ number stored @ ''): '' @ number (cascade + stored) @ '' of '' @ number all_count @ '' ''
             @ ''record operations ('' @ p @ ''). This is neither an upper nor a lower bound: cascades also free records held by ''
             @ ''other parents, and the old cell'' @ [squote] @ ''s own drop is not included.'' @ [newline]))))"

text \<open>\<open>max(items, key=...)\<close>: the first of the largest.\<close>

fun first_max :: "('a \<Rightarrow> int) \<Rightarrow> 'a list \<Rightarrow> 'a result" where
  "first_max f [] = Inl ValueError"
| "first_max f (x # xs) = Inr (fold (\<lambda>y best. if f best < f y then y else best) xs x)"

definition by_module :: "tagged \<Rightarrow> (string, string) dict \<Rightarrow> (string, int) dict" where
  "by_module tagged labels =
     counted (map (\<lambda>((kind, direction, f, category), count). (hd (split_char CHR ''.'' (label_of labels f)), count)) tagged)"

definition projections :: "tagged \<Rightarrow> (string, string) dict \<Rightarrow> (string, int) dict" where
  "projections tagged labels =
     counted (map (\<lambda>((kind, direction, f, category), count). (label_of labels f, count))
       (filter (\<lambda>((kind, direction, f, category), count). category = ''acquire:projection'') tagged))"

definition rc_concentration :: "tagged \<Rightarrow> (string, string) dict \<Rightarrow> int \<Rightarrow> string result" where
  "rc_concentration tagged labels grand =
     (let projection = projections tagged labels;
          busiest = ranked snd 5 projection;
          held = total_of busiest
      in bindE (first_max snd (by_module tagged labels)) (\<lambda>(module, module_count).
         bindE (percent held (total_of projection)) (\<lambda>held_share.
         bindE (percent module_count grand) (\<lambda>module_share.
           Inr (''### Concentration'' @ [newline, newline]
                @ ''The five functions with the most projection acquisitions hold '' @ number held @ '' of ''
                @ number (total_of projection) @ '' ('' @ held_share @ ''): ''
                @ join ''; '' (map (\<lambda>(n, c). n @ '' '' @ number c) busiest) @ ''. Module `'' @ module @ ''` holds ''
                @ number module_count @ '' of all '' @ number grand @ '' operations ('' @ module_share @ '').'' @ [newline])))))"

definition short_groups :: "(string \<times> string) list" where
  \<open>short_groups =
     [(''Projection acquisition'', ''proj acq''), (''Explicit drop at last use'', ''drops''),
      (''Cascade from a parent'' @ [squote] @ ''s free'', ''cascade''), (''Stored-field acquisition'', ''stored''),
      (''Borrowed-return acquisition (end of a block)'', ''block end''),
      (''List `get` (hands out a second reference)'', ''list get'')]\<close>

definition record_rows :: "tagged \<Rightarrow> (string, string) dict \<Rightarrow> (string \<times> string \<times> int) list result" where
  "record_rows tagged labels =
     mapE (\<lambda>((kind, direction, f, category), count).
         bindE (group_of category) (\<lambda>g. Inr (label_of labels f, g, count)))
       (filter (\<lambda>((kind, direction, f, category), count). kind = ''record'') tagged)"

definition rc_top_record_functions :: "tagged \<Rightarrow> (string, string) dict \<Rightarrow> kinds \<Rightarrow> int \<Rightarrow> string result" where
  "rc_top_record_functions tagged labels kinds limit =
     bindE (record_rows tagged labels) (\<lambda>rows.
     bindE (record_total kinds) (\<lambda>all_count.
     bindE (mapE (\<lambda>(name, cells). bindE (percent (total_of cells) all_count) (\<lambda>p.
              Inr ([name, number (total_of cells), p] @ map (\<lambda>(g, s). number (get_default 0 cells g)) short_groups)))
            (ranked (\<lambda>(name, cells). total_of cells) limit (nested rows))) (\<lambda>shown.
       Inr (''### Top '' @ show_int limit @ '' Blorp functions by record operations'' @ [newline, newline]
            @ table ([''Function'', ''Record ops'', ''Share''] @ map snd short_groups) shown
                ([''l'', ''r'', ''r''] @ replicate (length short_groups) ''r'')))))"

definition rc :: "files \<Rightarrow> string \<Rightarrow> int \<Rightarrow> string result" where
  "rc fs directory limit =
     bindE (function_labels fs directory) (\<lambda>labels.
     bindE (read_rc fs directory) (\<lambda>(tagged, kinds).
     bindE (rc_kinds kinds tagged) (\<lambda>(kinds_text, grand).
     bindE (rc_sources tagged grand) (\<lambda>sources.
     bindE (rc_pairs tagged grand) (\<lambda>pairs.
     bindE (rc_reuse_pool tagged kinds) (\<lambda>pool.
     bindE (rc_concentration tagged labels grand) (\<lambda>concentration.
     bindE (rc_top_record_functions tagged labels kinds limit) (\<lambda>functions.
       Inr (join [newline] [kinds_text, sources, pairs, rc_origins tagged, pool, concentration, functions])))))))))"

end
