(* ===== verification/Report_Stages.thy ===== *)
theory Report_Stages
  imports Report_Copies Report_RC
begin

text \<open>
  The \<open>allocations\<close>, \<open>profile\<close> and \<open>timing\<close> stages of \<^verbatim>\<open>report.py\<close>, and the choice of a stage by its \<open>main\<close>.
\<close>

section \<open>Allocations\<close>

definition ALLOCATION_KINDS :: "(string \<times> re) list" where
  "ALLOCATION_KINDS =
     [(''record'', lit ''blorp_record_make_''),
      (''boxed union'', lit ''blorp_union_make_''),
      (''List'', lit ''blorp_list_''),
      (''String'', alts [lit ''blorp_string_'', lit ''blorp_int_to_string'', lit ''blorp_float_'', lit ''blorp_fs_read_text''])]"

definition SITE_LINE :: re where
  "SITE_LINE = seqs [Star (Cls is_space), Grp 1 (Plus (Cls is_digit)), Plus (Cls is_space),
     Grp 2 (Plus (Cls (\<lambda>c. is_digit c \<or> c = CHR ''.''))), lit ''%'', Plus (Cls is_space), Grp 3 (Plus (Cls is_digit)),
     Plus (Cls is_space), Grp 4 (Plus (Cls is_digit)), Plus (Cls is_space), Grp 5 (Star dot), TextEnd]"

definition allocation_kind :: "string \<Rightarrow> string" where
  "allocation_kind helper =
     (if helper = ''(direct)'' then ''List (literal built inline)''
      else case filter (\<lambda>(kind, pattern). re_match pattern helper \<noteq> None) ALLOCATION_KINDS of
             (kind, pattern) # _ \<Rightarrow> kind
           | [] \<Rightarrow> ''other runtime ('' @ re_sub (Plus (Cls is_digit)) (\<lambda>_ _. ''N'') helper @ '')'')"

definition TOTAL_LINE :: re where
  "TOTAL_LINE = seqs [lit ''total: '', Grp 1 (Plus (Cls is_digit)), lit '' allocations, '', Grp 2 (Plus (Cls is_digit)),
     lit '' bytes requested, '', Grp 3 (Plus (Cls is_digit)), lit '' resizes'']"

definition FUNCTION_SUFFIX :: re where
  "FUNCTION_SUFFIX = seqs [lit '' (blorp_f_'', Plus (Cls is_digit), lit '')'', TextEnd]"

text \<open>\<open>label.partition(" <- ")\<close>: what is before and after the first separator.\<close>

definition partition_arrow :: "string \<Rightarrow> string \<times> string" where
  "partition_arrow label =
     (case find_from label '' <- '' 0 of None \<Rightarrow> (label, []) | Some j \<Rightarrow> (take j label, drop (j + 4) label))"

text \<open>A row of the site table: function, helper and kind, with its count and size.\<close>

definition site_row :: "string \<Rightarrow> ((string \<times> string \<times> string) \<times> cell2) option result" where
  "site_row line =
     (case re_match SITE_LINE line of
        None \<Rightarrow> Inr None
      | Some m \<Rightarrow>
          bindE (py_int (grp line m 1)) (\<lambda>count. bindE (py_int (grp line m 3)) (\<lambda>size.
            let (f, helper) = partition_arrow (grp line m 5);
                f = re_sub FUNCTION_SUFFIX (\<lambda>_ _. []) f
            in Inr (Some ((f, helper, allocation_kind helper), (count, size))))))"

definition no_sites_table :: string where
  \<open>no_sites_table = ''sites.txt has no '' @ [squote] @ ''By site and immediate helper'' @ [squote] @ '' table''\<close>

text \<open>What is read of the file: the totals of its first line, and the rows of the table by site and helper.\<close>

type_synonym site_cells = "((string \<times> string \<times> string) \<times> cell2) list"

definition read_sites :: "files \<Rightarrow> string \<Rightarrow> (int \<times> int \<times> site_cells) result" where
  "read_sites fs directory =
     bindE (read fs (stage_file directory ''allocations'' ''sites.txt'')) (\<lambda>content.
     (case re_search TOTAL_LINE content of
        None \<Rightarrow> fail_report ''sites.txt has no total line''
      | Some header \<Rightarrow>
     bindE (py_int (grp content header 1)) (\<lambda>all_count. bindE (py_int (grp content header 2)) (\<lambda>all_bytes.
     (case split_once content ''By site and immediate helper'' of
        [head, section] \<Rightarrow>
          bindE (mapE site_row (splitlines section)) (\<lambda>found. Inr (all_count, all_bytes, List.map_filter (\<lambda>x. x) found))
      | _ \<Rightarrow> fail_report no_sites_table)))))"

definition allocations_text :: "int \<Rightarrow> int \<Rightarrow> site_cells \<Rightarrow> int \<Rightarrow> string result" where
  "allocations_text all_count all_bytes rows limit =
     (let by_kind = sum_cells (map (\<lambda>((f, h, k), c). (k, c)) rows);
          pairs = sum_cells rows
      in bindE (mapE (\<lambda>(k, (n, size)). bindE (percent n all_count) (\<lambda>p. Inr [k, number n, p, number size]))
                  (sort_key (\<lambda>(k, c). - fst c) by_kind)) (\<lambda>kind_rows.
         bindE (mapE (\<lambda>((f, h, k), (n, size)). bindE (percent n all_count) (\<lambda>p. Inr [f, h, k, number n, p, number size]))
                  (ranked (\<lambda>(k, c). fst c) limit pairs)) (\<lambda>pair_rows.
           Inr (join [newline]
             [''### Allocations by data kind'' @ [newline],
              ''Total '' @ number all_count @ '' allocations, '' @ number all_bytes @ '' bytes requested.'' @ [newline],
              table [''Kind'', ''Allocations'', ''Share'', ''Bytes requested''] kind_rows [''l'', ''r'', ''r'', ''r''],
              ''### Top '' @ show_int limit @ '' allocation sites (function, immediate helper)'' @ [newline],
              table [''Function'', ''Helper'', ''Kind'', ''Allocations'', ''Share'', ''Bytes requested''] pair_rows
                [''l'', ''l'', ''l'', ''r'', ''r'', ''r'']]))))"

definition allocations :: "files \<Rightarrow> string \<Rightarrow> int \<Rightarrow> string result" where
  "allocations fs directory limit =
     bindE (read_sites fs directory) (\<lambda>(all_count, all_bytes, rows). allocations_text all_count all_bytes rows limit)"

section \<open>Profile\<close>

abbreviation maybe_underscore :: re where
  "maybe_underscore \<equiv> Opt (lit ''_'')"

definition PROFILE_CLASSES :: "(string \<times> re) list" where
  \<open>PROFILE_CLASSES =
     [(''allocator'',
       Alt (Seq TextStart (Grp 1 (alts [lit ''blorp_memory_'', Seq maybe_underscore (lit ''malloc''),
              seqs [maybe_underscore, lit ''free'', TextEnd], Seq maybe_underscore (lit ''calloc''),
              Seq maybe_underscore (lit ''realloc''), Seq maybe_underscore (lit ''nano''), Seq maybe_underscore (lit ''szone''),
              lit ''_xzm'', Seq maybe_underscore (lit ''small_''), Seq maybe_underscore (lit ''tiny_''),
              Seq maybe_underscore (lit ''large_''), Seq maybe_underscore (lit ''mvm_'')])))
           (lit ''(in libsystem_malloc'')),
      (''reference-count helpers'',
       Alt (seqs [TextStart, lit ''blorp_'', Grp 1 (alts [lit ''record'', lit ''list'', lit ''union'', lit ''callable'']), lit ''_'',
              Grp 2 (alts [lit ''dup'', lit ''drop'']), lit ''_''])
           (seqs [TextStart, lit ''blorp_string_'', Grp 3 (alts [lit ''retain'', lit ''release''])])),
      (''memmove, memset, bzero'',
       alts [lit ''_platform_mem'', lit ''_platform_bzero'',
             seqs [TextStart, maybe_underscore, lit ''mem'', Grp 1 (alts [lit ''move'', lit ''cpy'', lit ''set''])],
             seqs [TextStart, maybe_underscore, lit ''bzero'']]),
      (''specialization lookup (O0'' @ [squote] @ ''s function list)'',
       alts [lit ''find_instance'', lit ''slot_has_union_key'', lit ''find_union_instance'', lit ''slot_has_record_key'',
             lit ''same_type'', lit ''find_union_slot'', lit ''find_record_instance'', lit ''instance_lookup''])]\<close>

definition classify_frame :: "string \<Rightarrow> string" where
  "classify_frame frame =
     (case filter (\<lambda>(label, pattern). re_search pattern frame \<noteq> None) PROFILE_CLASSES of
        (label, pattern) # _ \<Rightarrow> label
      | [] \<Rightarrow> ''other'')"

definition NODE :: re where
  "NODE = seqs [TextStart, Grp 1 (Seq (Star (Cls is_space)) (Star (any_of ''+!:| ''))), Grp 2 (Plus (Cls is_digit)),
     lit '' '', Grp 3 (Plus (Cls (\<lambda>c. \<not> is_space c)))]"

text \<open>A line of the call graph: its depth, its samples and its symbol.\<close>

definition graph_node :: "string \<Rightarrow> (nat \<times> int \<times> string) option result" where
  "graph_node line =
     (case re_match NODE line of
        None \<Rightarrow> Inr None
      | Some m \<Rightarrow> bindE (py_int (grp line m 2)) (\<lambda>count. Inr (Some (length (grp line m 1), count, grp line m 3))))"

text \<open>One node: the stack (innermost frame first) and the counts so far.\<close>

definition visit :: "nat \<times> int \<times> string \<Rightarrow> (nat \<times> string) list \<times> (string, int) dict
    \<Rightarrow> (nat \<times> string) list \<times> (string, int) dict" where
  "visit node st =
     (let (indent, count, symbol) = node; (stack, inclusive) = st;
          stack = dropWhile (\<lambda>(i, s). indent \<le> i) stack
      in ((indent, symbol) # stack,
          if symbol \<in> snd ` set stack then inclusive else add_count symbol count inclusive))"

fun graph_nodes :: "bool \<Rightarrow> string list \<Rightarrow> (nat \<times> int \<times> string) list result" where
  "graph_nodes in_graph [] = Inr []"
| "graph_nodes in_graph (line # rest) =
     (if starts_with line ''Call graph:'' then graph_nodes True rest
      else if starts_with line ''Total number in stack'' then Inr []
      else if in_graph then
        bindE (graph_node line) (\<lambda>node. bindE (graph_nodes in_graph rest) (\<lambda>nodes.
          Inr ((case node of None \<Rightarrow> [] | Some n \<Rightarrow> [n]) @ nodes)))
      else graph_nodes in_graph rest)"

definition inclusive_samples :: "string \<Rightarrow> (string, int) dict result" where
  "inclusive_samples content =
     bindE (graph_nodes False (splitlines content)) (\<lambda>nodes. Inr (snd (fold visit nodes ([], []))))"

definition THREAD :: re where
  "THREAD = seqs [LineStart, Plus (Cls is_space), Grp 1 (Plus (Cls is_digit)), lit '' Thread_'']"

definition FRAME_LINE :: re where
  "FRAME_LINE = seqs [Plus (Cls is_space), Grp 1 (LazyPlus dot), Seq (Cls is_space) (Plus (Cls is_space)),
     lit ''(in '', Grp 2 (Star (none_of '')'')), lit '')'', Plus (Cls is_space), Grp 3 (Plus (Cls is_digit)),
     Star (Cls is_space), TextEnd]"

definition frame_class :: "(string, string) dict \<Rightarrow> string \<Rightarrow> (string \<times> int) option result" where
  "frame_class labels line =
     (case re_match FRAME_LINE line of
        None \<Rightarrow> Inr None
      | Some m \<Rightarrow>
          bindE (py_int (grp line m 3)) (\<lambda>count.
            let symbol = grp line m 1 in
            Inr (Some (classify_frame (get_default symbol labels symbol @ '' (in '' @ grp line m 2 @ '')''), count))))"

definition no_top_section :: string where
  \<open>no_top_section = ''sample.txt has no '' @ [squote] @ ''Sort by top of stack'' @ [squote] @ '' section''\<close>

definition blorp_samples :: "(string, string) dict \<Rightarrow> (string, int) dict \<Rightarrow> (string, int) dict" where
  "blorp_samples labels inclusive =
     counted (map (\<lambda>(symbol, count). (get_default symbol labels symbol, count))
       (filter (\<lambda>(symbol, count). starts_with symbol ''blorp_f_'') inclusive))"

definition profile_text :: "int \<Rightarrow> (string \<times> int) list \<Rightarrow> (string, int) dict \<Rightarrow> int \<Rightarrow> string result" where
  "profile_text samples frames blorp limit =
     (let row = (\<lambda>(k, v). bindE (percent v samples) (\<lambda>p. Inr [k, number v, p])) in
      bindE (mapE row (sort_key (\<lambda>(k, v). - v) (counted frames))) (\<lambda>class_rows.
      bindE (mapE row (ranked snd limit blorp)) (\<lambda>function_rows.
        Inr (join [newline]
          [''### Top-of-stack shares ('' @ number samples @ '' samples)'' @ [newline],
           ''`sample` lists only frames with at least 5 samples ('' @ number (total_of frames) @ '' of '' @ number samples
             @ '' samples here), so every class is a lower bound; '' @ [dquote] @ ''other'' @ [dquote]
             @ '' holds the unlisted remainder.'' @ [newline],
           table [''Class'', ''Samples'', ''Share of all samples''] class_rows [''l'', ''r'', ''r''],
           ''### Top '' @ show_int limit @ '' Blorp functions, inclusive'' @ [newline],
           table [''Function'', ''Samples'', ''Share''] function_rows [''l'', ''r'', ''r'']]))))"

definition profile :: "files \<Rightarrow> string \<Rightarrow> int \<Rightarrow> string result" where
  "profile fs directory limit =
     bindE (function_labels fs directory) (\<lambda>labels.
     bindE (read fs (stage_file directory ''profile'' ''sample.txt'')) (\<lambda>content.
     (case split_once content ''Sort by top of stack, same collapsed'' of
        [head, tail] \<Rightarrow>
          (case re_search THREAD content of
             None \<Rightarrow> fail_report ''sample.txt has no main-thread line''
           | Some thread \<Rightarrow>
               bindE (py_int (grp content thread 1)) (\<lambda>samples.
               bindE (mapE (frame_class labels) (splitlines (before tail ''Binary Images:''))) (\<lambda>frames.
               bindE (inclusive_samples content) (\<lambda>inclusive.
                 profile_text samples (List.map_filter (\<lambda>x. x) frames) (blorp_samples labels inclusive) limit))))
      | _ \<Rightarrow> fail_report no_top_section)))"

section \<open>Timing\<close>

record run_row =
  r_build :: string
  r_sample :: int
  r_load :: string
  r_seconds :: pyfloat
  r_cycles :: int
  r_instructions :: int

definition run_line :: "string \<Rightarrow> run_row result" where
  "run_line line =
     (case split_char tab line of
        [build, sample, load, seconds, cycles, instructions] \<Rightarrow>
          bindE (py_int sample) (\<lambda>n. bindE (py_float seconds) (\<lambda>s. bindE (py_int cycles) (\<lambda>c. bindE (py_int instructions) (\<lambda>i.
            Inr \<lparr>r_build = build, r_sample = n, r_load = load, r_seconds = s, r_cycles = c, r_instructions = i\<rparr>))))
      | _ \<Rightarrow> Inl ValueError)"

text \<open>\<open>min\<close> over a list that is not empty: the first of the smallest.\<close>

fun first_min :: "('a \<Rightarrow> 'a \<Rightarrow> bool) \<Rightarrow> 'a list \<Rightarrow> 'a result" where
  "first_min smaller [] = Inl ValueError"
| "first_min smaller (x # xs) = Inr (fold (\<lambda>y best. if smaller y best then y else best) xs x)"

definition best_of :: "run_row list \<Rightarrow> (string, pyfloat \<times> int \<times> int) dict result" where
  "best_of rows =
     mapE (\<lambda>build. let mine = filter (\<lambda>r. r_build r = build) rows in
       bindE (first_min fless (map r_seconds mine)) (\<lambda>s.
       bindE (first_min (<) (map r_cycles mine)) (\<lambda>c.
       bindE (first_min (<) (map r_instructions mine)) (\<lambda>i. Inr (build, (s, c, i))))))
     (sort (remdups (map r_build rows)))"

text \<open>\<open>100.0 * (1 - x)\<close> and \<open>100.0 * (x - 1)\<close>.\<close>

definition percent_less :: "pyfloat \<Rightarrow> pyfloat" where
  "percent_less x = fmul (Fin 100) (fsub (Fin 1) x)"

definition percent_more :: "pyfloat \<Rightarrow> pyfloat" where
  "percent_more x = fmul (Fin 100) (fsub x (Fin 1))"

text \<open>The rows of one sample number, by build; a later row of the same build replaces an earlier one.\<close>

definition by_sample :: "run_row list \<Rightarrow> (int, (string, run_row) dict) dict" where
  "by_sample rows = tally [] r_sample (\<lambda>r. dict_put (r_build r) r) rows"

definition pair_less :: "(string, run_row) dict \<Rightarrow> pyfloat result" where
  "pair_less v =
     bindE (dict_index v ''plain'') (\<lambda>p. bindE (dict_index v ''atomic'') (\<lambda>a.
       bindE (int_div (r_cycles p) (r_cycles a)) (\<lambda>q. Inr (percent_less q))))"

definition float_key :: "pyfloat \<Rightarrow> int \<times> rat" where
  "float_key x = (case x of Fin r \<Rightarrow> (0, r) | Inf n \<Rightarrow> (if n then -1 else 1, 0) | NaN \<Rightarrow> (2, 0))"

definition list_index :: "'a list \<Rightarrow> nat \<Rightarrow> 'a result" where
  "list_index xs i = (if i < length xs then Inr (xs ! i) else Inl IndexError)"

definition comparison :: "(string, pyfloat \<times> int \<times> int) dict \<Rightarrow> string result" where
  "comparison best =
     bindE (dict_index best ''atomic'') (\<lambda>(a0, a1, a2). bindE (dict_index best ''plain'') (\<lambda>(p0, p1, p2).
     bindE (int_div p2 a2) (\<lambda>q2. bindE (fdiv p0 a0) (\<lambda>q0. bindE (int_div p1 a1) (\<lambda>q1.
       let instructions = percent_more q2 in
       Inr (''Plain over atomic, best of each: '' @ format_f 1 (percent_less q0) @ ''% less time, ''
            @ format_f 1 (percent_less q1) @ ''% fewer cycles, '' @ format_f 1 (fabs instructions) @ ''% ''
            @ (if fless (Fin 0) instructions then ''more'' else ''fewer'') @ '' instructions.'' @ [newline]))))))"

definition pairs_text :: "run_row list \<Rightarrow> string result" where
  "pairs_text rows =
     bindE (mapE pair_less (map snd (filter (\<lambda>(n, v). length v = 2) (by_sample rows)))) (\<lambda>shares.
       let fewer = sort_key float_key shares in
       bindE (list_index fewer 0) (\<lambda>lo. bindE (list_index fewer (length fewer div 2)) (\<lambda>mid.
         Inr (''Per pair (same sample number), the plain build used '' @ format_f 1 lo @ ''% to ''
              @ format_f 1 (last fewer) @ ''% fewer cycles, median '' @ format_f 1 mid @ ''%.'' @ [newline]))))"

definition timing :: "files \<Rightarrow> string \<Rightarrow> int \<Rightarrow> string result" where
  "timing fs directory limit =
     bindE (read fs (stage_file directory ''timing'' ''runs.tsv'')) (\<lambda>content.
     bindE (mapE run_line (splitlines content)) (\<lambda>rows.
     bindE (best_of rows) (\<lambda>best.
     bindE (first_max (\<lambda>n. n) (map r_sample rows)) (\<lambda>samples.
     bindE (comparison best) (\<lambda>compared.
     bindE (pairs_text rows) (\<lambda>paired.
       Inr (join [newline]
         [''### Runs (in execution order)'' @ [newline],
          table [''Build'', ''Sample'', ''Load average (1, 5, 15 min) before'', ''User+system seconds'', ''Cycles'', ''Instructions retired'']
            (map (\<lambda>r. [r_build r, show_int (r_sample r), r_load r, format_f 3 (r_seconds r), number (r_cycles r),
               number (r_instructions r)]) rows) [''l'', ''r'', ''l'', ''r'', ''r'', ''r''],
          ''### Best of '' @ show_int samples @ [newline],
          table [''Build'', ''Seconds'', ''Cycles'', ''Instructions retired'']
            (map (\<lambda>(b, (s, c, i)). [b, format_f 3 s, number c, number i]) best) [''l'', ''r'', ''r'', ''r''],
          compared, paired])))))))"

section \<open>The script\<close>

datatype stage = Copies | Rc | Allocations | Profile | Timing

text \<open>\<open>main\<close> after argument parsing: what it prints, or how it fails.\<close>

definition report_main :: "files \<Rightarrow> tools \<Rightarrow> stage \<Rightarrow> string \<Rightarrow> int \<Rightarrow> string result" where
  "report_main fs env stage directory limit =
     bindE (case stage of
        Copies \<Rightarrow> copies fs env directory limit
      | Rc \<Rightarrow> rc fs directory limit
      | Allocations \<Rightarrow> allocations fs directory limit
      | Profile \<Rightarrow> profile fs directory limit
      | Timing \<Rightarrow> timing fs directory limit) (\<lambda>out. Inr (out @ [newline]))"

end
