(* ===== verification/Report_Props.thy ===== *)
theory Report_Props
  imports Report_Stages
begin

text \<open>
  Lemmas about the report: the tables conserve the counts they are built from, grouping is a partition,
  and the call graph is walked with the right ancestors.
\<close>

section \<open>Conservation\<close>

lemma put_sum: "total_of (add_count k c d) = total_of d + c"
  by (induction d) (auto simp: add_count_def get_default_def split: if_splits)

interpretation group_cells: additive "[] :: ('k, int) dict" "\<lambda>(g, k, c). add_count k c" total_of "\<lambda>(g :: 'g, k, c). c"
  by unfold_locales (auto simp: put_sum)

interpretation plain_counts: additive "0 :: int" "\<lambda>(k, c) n. n + c" "\<lambda>n. n" "\<lambda>(k :: 'k, c). c"
  by unfold_locales auto

lemma counted_total: "total_of (counted rows) = sum_list (map snd rows)"
  using plain_counts.tally_total [of fst rows] by (simp add: counted_def case_prod_beta')

lemma counted_entry: "get_default 0 (counted rows) k = sum_list (map snd (filter (\<lambda>x. fst x = k) rows))"
  using plain_counts.tally_entry [of fst rows k] by (simp add: counted_def case_prod_beta')

lemma counted_fold: "counted rows = fold (\<lambda>(k, c). add_count k c) rows []"
  by (simp add: counted_def tally_def add_count_def [abs_def] case_prod_beta')

lemma add_count_filter:
  "sum_list (map snd (filter (\<lambda>kv. Q (fst kv)) (add_count k c d))) =
     sum_list (map snd (filter (\<lambda>kv. Q (fst kv)) d)) + (if Q k then c else 0)"
  by (induction d) (auto simp: add_count_def get_default_def split: if_splits)

lemma counted_filter:
  "sum_list (map snd (filter (\<lambda>kv. Q (fst kv)) (counted rows))) = sum_list (map snd (filter (\<lambda>r. Q (fst r)) rows))"
proof -
  have "sum_list (map snd (filter (\<lambda>kv. Q (fst kv)) (fold (\<lambda>(k, c). add_count k c) rows d)))
      = sum_list (map snd (filter (\<lambda>kv. Q (fst kv)) d)) + sum_list (map snd (filter (\<lambda>r. Q (fst r)) rows))" for d
    by (induction rows arbitrary: d) (auto simp: add_count_filter split: prod.splits)
  from this [of "[]"] show ?thesis by (simp add: counted_fold)
qed

lemma nested_entry:
  "total_of (get_default [] (nested rows) g) = sum_list (map (\<lambda>(g, k, c). c) (filter (\<lambda>(g', k, c). g' = g) rows))"
  using group_cells.tally_entry [of "\<lambda>(g, k, c). g" rows g] by (simp add: nested_def case_prod_beta')

lemma sum_by_class:
  assumes "distinct gs" and "\<And>x. x \<in> set xs \<Longrightarrow> f x \<in> set gs"
  shows "sum_list (map (\<lambda>g. sum_list (map w (filter (\<lambda>x. f x = g) xs))) gs) = sum_list (map (w :: 'x \<Rightarrow> int) xs)"
  using assms(2)
proof (induction xs)
  case (Cons x xs)
  have "sum_list (map (\<lambda>g. sum_list (map w (filter (\<lambda>y. f y = g) (x # xs)))) gs)
      = sum_list (map (\<lambda>g. (if f x = g then w x else 0) + sum_list (map w (filter (\<lambda>y. f y = g) xs))) gs)"
    by (intro arg_cong [where f = sum_list] map_cong) auto
  also have "\<dots> = sum_list (map (\<lambda>g. if f x = g then w x else 0) gs) + sum_list (map w xs)"
    using Cons by (simp add: sum_list_addf)
  also have "sum_list (map (\<lambda>g. if f x = g then w x else 0) gs) = w x"
    using assms(1) Cons.prems [of x] by (subst sum_list_distinct_conv_sum_set) auto
  finally show ?case by simp
qed simp

section \<open>Groups\<close>

lemma group_labels_distinct: "distinct (map fst RC_GROUPS)"
  by (simp add: RC_GROUPS_def)

lemma group_of_label: "group_of category = Inr g \<Longrightarrow> g \<in> set (map fst RC_GROUPS)"
proof -
  assume "group_of category = Inr g"
  then obtain pres rest where
    f: "filter (\<lambda>(label, pres). \<exists>p \<in> set pres. starts_with category p) RC_GROUPS = (g, pres) # rest"
    by (auto simp: group_of_def fail_report_def split: list.splits)
  have "(g, pres) \<in> set (filter (\<lambda>(label, pres). \<exists>p \<in> set pres. starts_with category p) RC_GROUPS)" unfolding f by simp
  then show ?thesis by force
qed

lemma grouped_rows_Inr:
  assumes "grouped_rows tagged = Inr rows"
  shows "map (\<lambda>(g, k, c). c) rows = map snd tagged" and "\<And>x. x \<in> set rows \<Longrightarrow> fst x \<in> set (map fst RC_GROUPS)"
proof -
  have eq: "map (\<lambda>((kind, direction, f, category), count).
       bindE (group_of category) (\<lambda>g. Inr (g, (kind, direction), count))) tagged = map Inr rows"
    using assms by (simp add: grouped_rows_def mapE_Inr_iff)
  show "map (\<lambda>(g, k, c). c) rows = map snd tagged"
    using eq
  proof (induction tagged arbitrary: rows)
    case (Cons t ts)
    then show ?case by (cases rows) (auto simp: bindE_Inr_iff split: prod.splits)
  qed simp
  show "fst x \<in> set (map fst RC_GROUPS)" if "x \<in> set rows" for x
  proof -
    from that have "Inr x \<in> set (map Inr rows :: (string \<times> (string \<times> string) \<times> int) result list)" by simp
    then obtain kind direction f category count
      where x: "Inr x = bindE (group_of category) (\<lambda>g. Inr (g, (kind, direction), count))" unfolding eq [symmetric] by auto
    then obtain g where "group_of category = Inr g" "fst x = g" by (cases "group_of category") auto
    then show ?thesis using group_of_label by blast
  qed
qed

lemma sources_total:
  assumes "grouped_rows tagged = Inr rows"
  shows "sum_list (map (\<lambda>label. total_of (get_default [] (nested rows) label)) (map fst RC_GROUPS)) = total_of tagged"
proof -
  have "sum_list (map (\<lambda>g. sum_list (map (\<lambda>(g, k, c). c) (filter (\<lambda>x. fst x = g) rows))) (map fst RC_GROUPS))
      = sum_list (map (\<lambda>(g, k, c). c) rows)"
    by (rule sum_by_class [OF group_labels_distinct grouped_rows_Inr(2) [OF assms]])
  then show ?thesis using grouped_rows_Inr(1) [OF assms] by (simp add: nested_entry case_prod_beta')
qed

section \<open>The verdict\<close>

lemma mapE_all_empty: "(\<exists>ys. mapE f xs = Inr ys \<and> concat ys = []) \<longleftrightarrow> (\<forall>x \<in> set xs. f x = Inr [])"
proof (induction xs)
  case (Cons x xs)
  have "(\<exists>ys. mapE f (x # xs) = Inr ys \<and> concat ys = []) \<longleftrightarrow> f x = Inr [] \<and> (\<exists>ys. mapE f xs = Inr ys \<and> concat ys = [])"
    by (fastforce simp: bindE_Inr_iff)
  with Cons show ?case by simp
qed simp

lemma mismatches_none:
  "mismatches tagged kinds = Inr [] \<longleftrightarrow>
     (\<forall>kind \<in> set all_kinds. \<forall>d \<in> {''inc'', ''dec''}. dict_get kinds (kind, d) = Some (summed tagged kind d))"
proof -
  let ?f = "\<lambda>(kind, direction). bindE (dict_index kinds (kind, direction)) (\<lambda>n.
          let s = summed tagged kind direction in
          Inr (if s \<noteq> n then [kind @ '' '' @ direction @ '': tagged '' @ show_int s @ '', kinds-only '' @ show_int n] else []))"
  have one: "?f (kind, d) = Inr [] \<longleftrightarrow> dict_get kinds (kind, d) = Some (summed tagged kind d)" for kind d
    by (auto simp: dict_index_def Let_def split: option.splits)
  have "mismatches tagged kinds = Inr [] \<longleftrightarrow>
      (\<exists>ys. mapE ?f (List.product all_kinds [''inc'', ''dec'']) = Inr ys \<and> concat ys = [])"
    by (auto simp: mismatches_def bindE_Inr_iff)
  also have "\<dots> \<longleftrightarrow> (\<forall>x \<in> set (List.product all_kinds [''inc'', ''dec'']). ?f x = Inr [])" by (rule mapE_all_empty)
  also have "\<dots> \<longleftrightarrow> (\<forall>kind \<in> set all_kinds. \<forall>d \<in> {''inc'', ''dec''}. ?f (kind, d) = Inr [])" by auto
  finally show ?thesis by (simp only: one)
qed

lemma all_kinds_distinct: "distinct (List.product all_kinds [''inc'', ''dec''])"
  by (simp add: all_kinds_def RC_KINDS_def)

text \<open>When the verdict is yes and the tags name only known kinds, the grand total is the sum of all tags.\<close>

lemma rc_kinds_grand:
  assumes "rc_kinds kinds tagged = Inr (out, grand)"
  shows "grand = sum_list (map (\<lambda>(k, d). the (dict_get kinds (k, d))) (List.product all_kinds [''inc'', ''dec'']))"
proof -
  obtain counts where counts: "mapE (\<lambda>kind. bindE (dict_index kinds (kind, ''inc'')) (\<lambda>inc.
              bindE (dict_index kinds (kind, ''dec'')) (\<lambda>dec. Inr (kind, inc, dec)))) all_kinds = Inr counts"
    and grand: "grand = sum_list (map (\<lambda>(kind, inc, dec). inc + dec) counts)"
    using assms by (auto simp: rc_kinds_def bindE_Inr_iff Let_def)
  have "sum_list (map (\<lambda>(kind, inc, dec). inc + dec) counts)
      = sum_list (map (\<lambda>(k, d). the (dict_get kinds (k, d))) (List.product ks [''inc'', ''dec'']))"
    if "mapE (\<lambda>kind. bindE (dict_index kinds (kind, ''inc'')) (\<lambda>inc.
              bindE (dict_index kinds (kind, ''dec'')) (\<lambda>dec. Inr (kind, inc, dec)))) ks = Inr counts" for ks counts
    using that by (induction ks arbitrary: counts) (auto simp: bindE_Inr_iff dict_index_def split: option.splits)
  from this [OF counts] show ?thesis by (simp add: grand)
qed

lemma verdict_total:
  assumes "rc_kinds kinds tagged = Inr (out, grand)" and "mismatches tagged kinds = Inr []"
    and "\<And>k d f c n. ((k, d, f, c), n) \<in> set tagged \<Longrightarrow> k \<in> set all_kinds \<and> d \<in> {''inc'', ''dec''}"
  shows "grand = total_of tagged"
proof -
  have "grand = sum_list (map (\<lambda>(k, d). summed tagged k d) (List.product all_kinds [''inc'', ''dec'']))"
    unfolding rc_kinds_grand [OF assms(1)] using assms(2) unfolding mismatches_none
    by (intro arg_cong [where f = sum_list] map_cong) auto
  also have "\<dots> = sum_list (map (\<lambda>g. sum_list (map snd (filter (\<lambda>x. (\<lambda>((k, d, f, c), n). (k, d)) x = g) tagged)))
      (List.product all_kinds [''inc'', ''dec'']))"
    by (intro arg_cong [where f = sum_list] map_cong) (auto simp: summed_def case_prod_beta')
  also have "\<dots> = total_of tagged"
    by (rule sum_by_class [OF all_kinds_distinct]) (use assms(3) in force)
  finally show ?thesis .
qed

section \<open>The call graph\<close>

abbreviation indent_of :: "(nat \<times> int \<times> string) list \<Rightarrow> nat \<Rightarrow> nat" where
  "indent_of nodes i \<equiv> fst (nodes ! i)"

abbreviation symbol_of :: "(nat \<times> int \<times> string) list \<Rightarrow> nat \<Rightarrow> string" where
  "symbol_of nodes i \<equiv> snd (snd (nodes ! i))"

abbreviation samples_of :: "(nat \<times> int \<times> string) list \<Rightarrow> nat \<Rightarrow> int" where
  "samples_of nodes i \<equiv> fst (snd (nodes ! i))"

text \<open>Line \<open>i\<close> is an ancestor of line \<open>j\<close>: every later line up to \<open>j\<close> is indented more.\<close>

definition ancestor :: "(nat \<times> int \<times> string) list \<Rightarrow> nat \<Rightarrow> nat \<Rightarrow> bool" where
  "ancestor nodes i j \<longleftrightarrow> i < j \<and> (\<forall>k. i < k \<and> k \<le> j \<longrightarrow> indent_of nodes i < indent_of nodes k)"

definition outermost :: "(nat \<times> int \<times> string) list \<Rightarrow> nat \<Rightarrow> bool" where
  "outermost nodes j \<longleftrightarrow> \<not> (\<exists>i. ancestor nodes i j \<and> symbol_of nodes i = symbol_of nodes j)"

definition open_line :: "(nat \<times> int \<times> string) list \<Rightarrow> nat \<Rightarrow> bool" where
  "open_line nodes i \<longleftrightarrow> (\<forall>k. i < k \<and> k < length nodes \<longrightarrow> indent_of nodes i < indent_of nodes k)"

definition open_stack :: "(nat \<times> int \<times> string) list \<Rightarrow> (nat \<times> string) list" where
  "open_stack nodes = map (\<lambda>i. (indent_of nodes i, symbol_of nodes i)) (rev (filter (open_line nodes) [0..<length nodes]))"

lemma dropWhile_filter:
  "sorted_wrt (\<lambda>x y. f y < f x) xs \<Longrightarrow> dropWhile (\<lambda>x. b \<le> f x) xs = filter (\<lambda>x. f x < (b :: nat)) xs"
proof (induction xs)
  case (Cons x xs)
  show ?case
  proof (cases "b \<le> f x")
    case False
    with Cons.prems have "\<forall>y \<in> set xs. f y < b" by auto
    with False show ?thesis by (simp add: filter_id_conv)
  qed (use Cons in simp)
qed simp

lemma open_line_snoc:
  "i < length nodes \<Longrightarrow> open_line (nodes @ [n]) i \<longleftrightarrow> open_line nodes i \<and> indent_of nodes i < fst n"
  by (auto simp: open_line_def nth_append less_Suc_eq)

lemma open_line_last: "open_line (nodes @ [n]) (length nodes)"
  by (auto simp: open_line_def)

lemma open_stack_sorted: "sorted_wrt (\<lambda>x y. fst y < fst x) (open_stack nodes)"
proof -
  have "sorted_wrt (\<lambda>i j. i < j) (filter (open_line nodes) [0..<length nodes])"
    by (simp add: sorted_wrt_filter)
  then have "sorted_wrt (\<lambda>i j. indent_of nodes i < indent_of nodes j) (filter (open_line nodes) [0..<length nodes])"
    by (rule sorted_wrt_mono_rel [rotated]) (auto simp: open_line_def)
  then show ?thesis by (simp add: open_stack_def sorted_wrt_rev sorted_wrt_map)
qed

lemma open_stack_snoc:
  "open_stack (nodes @ [(indent, count, symbol)]) = (indent, symbol) # filter (\<lambda>x. fst x < indent) (open_stack nodes)"
proof -
  let ?ns = "nodes @ [(indent, count, symbol)]"
  have "filter (open_line ?ns) [0..<length nodes] = filter (\<lambda>i. indent_of nodes i < indent) (filter (open_line nodes) [0..<length nodes])"
    unfolding filter_filter by (rule filter_cong) (auto simp: open_line_snoc)
  then have "open_stack ?ns = (indent, symbol)
      # map (\<lambda>i. (indent_of ?ns i, symbol_of ?ns i)) (rev (filter (\<lambda>i. indent_of nodes i < indent) (filter (open_line nodes) [0..<length nodes])))"
    by (simp add: open_stack_def open_line_last)
  also have "map (\<lambda>i. (indent_of ?ns i, symbol_of ?ns i)) (rev (filter (\<lambda>i. indent_of nodes i < indent) (filter (open_line nodes) [0..<length nodes])))
      = map (\<lambda>i. (indent_of nodes i, symbol_of nodes i)) (rev (filter (\<lambda>i. indent_of nodes i < indent) (filter (open_line nodes) [0..<length nodes])))"
    by (auto simp: nth_append)
  also have "\<dots> = filter (\<lambda>x. fst x < indent) (open_stack nodes)"
    by (simp add: open_stack_def filter_map rev_filter o_def)
  finally show ?thesis .
qed

lemma visit_stack: "fst (fold visit nodes ([], [])) = open_stack nodes"
proof (induction nodes rule: rev_induct)
  case Nil
  then show ?case by (simp add: open_stack_def)
next
  case (snoc n nodes)
  obtain indent count symbol where n: "n = (indent, count, symbol)" by (cases n)
  have "dropWhile (\<lambda>(i, s). indent \<le> i) (open_stack nodes) = filter (\<lambda>x. fst x < indent) (open_stack nodes)"
    using dropWhile_filter [OF open_stack_sorted, of indent nodes] by (simp add: case_prod_beta')
  with snoc show ?case by (simp add: n open_stack_snoc visit_def Let_def case_prod_beta)
qed

lemma outermost_snoc: "j < length nodes \<Longrightarrow> outermost (nodes @ ns) j = outermost nodes j"
  by (auto simp: outermost_def ancestor_def nth_append)

lemma outermost_last:
  "outermost (nodes @ [(indent, count, symbol)]) (length nodes) \<longleftrightarrow>
     symbol \<notin> snd ` set (filter (\<lambda>x. fst x < indent) (open_stack nodes))"
proof -
  let ?ns = "nodes @ [(indent, count, symbol)]"
  have "ancestor ?ns i (length nodes) \<longleftrightarrow> i < length nodes \<and> open_line nodes i \<and> indent_of nodes i < indent" for i
    by (auto simp: ancestor_def open_line_def nth_append le_less)
  then show ?thesis
    by (auto simp: outermost_def open_stack_def nth_append image_iff)
qed

lemma add_count_get: "get_default 0 (add_count k c d) s = get_default 0 d s + (if s = k then c else 0)"
  by (simp add: add_count_def get_default_def dict_put_lookup)

lemma inclusive_spec:
  "get_default 0 (snd (fold visit nodes ([], []))) s =
     sum_list (map (samples_of nodes) (filter (\<lambda>j. symbol_of nodes j = s \<and> outermost nodes j) [0..<length nodes]))"
proof (induction nodes rule: rev_induct)
  case Nil
  then show ?case by (simp add: get_default_def)
next
  case (snoc n nodes)
  obtain indent count symbol where n: "n = (indent, count, symbol)" by (cases n)
  let ?ns = "nodes @ [n]"
  have old: "map (samples_of ?ns) (filter (\<lambda>j. symbol_of ?ns j = s \<and> outermost ?ns j) [0..<length nodes])
      = map (samples_of nodes) (filter (\<lambda>j. symbol_of nodes j = s \<and> outermost nodes j) [0..<length nodes])"
    by (auto simp: nth_append outermost_snoc intro!: map_cong filter_cong)
  have stack: "dropWhile (\<lambda>(i, s). indent \<le> i) (fst (fold visit nodes ([], []))) = filter (\<lambda>x. fst x < indent) (open_stack nodes)"
    using dropWhile_filter [OF open_stack_sorted, of indent nodes] by (simp add: visit_stack case_prod_beta')
  have "get_default 0 (snd (fold visit ?ns ([], []))) s = get_default 0 (snd (fold visit nodes ([], []))) s
      + (if symbol = s \<and> outermost ?ns (length nodes) then count else 0)"
    unfolding n outermost_last
    by (simp add: visit_def Let_def case_prod_beta add_count_get stack [unfolded case_prod_beta'] case_prod_beta')
  then show ?case using snoc old by (cases "symbol = s") (auto simp: n)
qed

end
