(* ===== verification/Report_Theorems.thy ===== *)
theory Report_Theorems
  imports Report_Props
begin

text \<open>
  The properties of \<^verbatim>\<open>report.py\<close>: its tables account for every count they read, its verdict means what it
  says, and rankings and call-graph totals are right.
\<close>

section \<open>Copies\<close>

lemma sum_cells_calls: "sum_list (map (\<lambda>kv. fst (snd kv)) (sum_cells rows)) = sum_list (map (\<lambda>x. fst (snd x)) rows)"
  using calls.tally_total [of fst rows] by (simp add: sum_cells_def case_prod_beta')

lemma sum_cells_units: "sum_list (map (\<lambda>kv. snd (snd kv)) (sum_cells rows)) = sum_list (map (\<lambda>x. snd (snd x)) rows)"
  using units.tally_total [of fst rows] by (simp add: sum_cells_def case_prod_beta')

lemma sum_cells_entry:
  "get_default (0, 0) (sum_cells rows) k =
     (sum_list (map (\<lambda>x. fst (snd x)) (filter (\<lambda>x. fst x = k) rows)), sum_list (map (\<lambda>x. snd (snd x)) (filter (\<lambda>x. fst x = k) rows)))"
  using calls.tally_entry [of fst rows k] units.tally_entry [of fst rows k]
  by (simp add: sum_cells_def case_prod_beta' prod_eq_iff)

text \<open>The rows that are counted: all but a borrowed copy made by an in-place helper.\<close>

definition counted_row :: "(int, string \<times> int) dict \<Rightarrow> int \<Rightarrow> prof_line \<Rightarrow> bool" where
  "counted_row places load row =
     (let (kind, address, hits, units) = row in
      \<not> (ends_with kind ''borrowed'' \<and> contains (fst (the (dict_get places (address - load)))) ''take_left''))"

lemma copy_sites_kept:
  assumes "mapE (copy_site labels places load) rows = Inr sites"
  shows "map snd (List.map_filter (\<lambda>x. x) sites) = map (\<lambda>(k, a, h, u). (h, u)) (filter (counted_row places load) rows)"
  using assms
proof (induction rows arbitrary: sites)
  case (Cons row rows)
  obtain kind address hits units where row: "row = (kind, address, hits, units)" by (cases row)
  from Cons.prems obtain s rest where s: "copy_site labels places load row = Inr s" and rest: "mapE (copy_site labels places load) rows = Inr rest"
    and sites: "sites = s # rest" by (auto simp: bindE_Inr_iff)
  from s obtain f line where "dict_get places (address - load) = Some (f, line)"
    and "s = (if counted_row places load row then Some ((get_default f labels f, kind, line), (hits, units)) else None)"
    by (auto simp: copy_site_def counted_row_def row bindE_Inr_iff dict_index_def split: option.splits if_splits)
  with Cons.IH [OF rest] sites show ?case by (simp add: row map_filter_simps)
qed (simp add: map_filter_simps)

text \<open>C26: no copy is lost or counted twice: the calls and units in the table by path, and those in the table by
  function, are the sums over the rows of the profile that are counted, which are all rows but the borrowed
  copies made inside an in-place helper, and the cell of a path is the sum over the sites of that path.\<close>

theorem copies_conserve:
  assumes "mapE (copy_site labels places load) rows = Inr found" and "sites = sum_cells (List.map_filter (\<lambda>x. x) found)"
  shows "sum_list (map (\<lambda>kv. fst (snd kv)) (by_path sites)) = sum_list (map (\<lambda>(k, a, h, u). h) (filter (counted_row places load) rows))
    \<and> sum_list (map (\<lambda>kv. snd (snd kv)) (by_path sites)) = sum_list (map (\<lambda>(k, a, h, u). u) (filter (counted_row places load) rows))
    \<and> sum_list (map (\<lambda>kv. fst (snd kv)) (by_function sites)) = sum_list (map (\<lambda>kv. fst (snd kv)) (by_path sites))
    \<and> sum_list (map (\<lambda>kv. snd (snd kv)) (by_function sites)) = sum_list (map (\<lambda>kv. snd (snd kv)) (by_path sites))
    \<and> get_default (0, 0) (by_path sites) kind =
        (sum_list (map (\<lambda>x. fst (snd x)) (filter (\<lambda>((label, k, line), c). k = kind) sites)),
         sum_list (map (\<lambda>x. snd (snd x)) (filter (\<lambda>((label, k, line), c). k = kind) sites)))"
proof -
  let ?kept = "filter (counted_row places load) rows"
  have kept: "map (\<lambda>x. f (snd x)) (List.map_filter (\<lambda>x. x) found) = map (\<lambda>(k, a, h, u). f (h, u)) ?kept" for f :: "cell2 \<Rightarrow> int"
    using arg_cong [OF copy_sites_kept [OF assms(1)], of "map f"] by (simp add: o_def case_prod_beta')
  have "sum_list (map (\<lambda>kv. fst (snd kv)) sites) = sum_list (map (\<lambda>(k, a, h, u). h) ?kept)"
    and "sum_list (map (\<lambda>kv. snd (snd kv)) sites) = sum_list (map (\<lambda>(k, a, h, u). u) ?kept)"
    using kept [of fst] kept [of snd] by (simp_all add: assms(2) sum_cells_calls sum_cells_units)
  moreover have "get_default (0, 0) (by_path sites) kind =
        (sum_list (map (\<lambda>x. fst (snd x)) (filter (\<lambda>((label, k, line), c). k = kind) sites)),
         sum_list (map (\<lambda>x. snd (snd x)) (filter (\<lambda>((label, k, line), c). k = kind) sites)))"
    by (simp add: by_path_def sum_cells_entry filter_map o_def case_prod_beta')
  ultimately show ?thesis
    by (simp add: by_path_def by_function_def sum_cells_calls sum_cells_units o_def case_prod_beta')
qed

theorem copies_conserve_witness:
  "sum_list (map (\<lambda>kv. fst (snd kv)) (by_path (sum_cells (List.map_filter (\<lambda>x. x)
     [Some ((''m.f'', ''list_unique'', 9), (4, 40)), None, Some ((''m.f'', ''list_unique'', 9), (1, 2))])))) = 5"
proof -
  let ?places = "[(0x10, (''blorp_f_1'', 9)), (0x20, (''blorp_list_append_take_left_1'', 3))]"
  let ?rows = "[(''list_unique'', 0x110, 4, 40), (''list_borrowed'', 0x120, 7, 70), (''list_unique'', 0x110, 1, 2)]"
  have m: "mapE (copy_site [(''blorp_f_1'', ''m.f'')] ?places 0x100) ?rows
    = Inr [Some ((''m.f'', ''list_unique'', 9), (4, 40)), None, Some ((''m.f'', ''list_unique'', 9), (1, 2))]" by code_simp
  have k: "sum_list (map (\<lambda>(k, a, h, u). h) (filter (counted_row ?places 0x100) ?rows)) = 5" by code_simp
  from copies_conserve [OF m refl] k show ?thesis by simp
qed

text \<open>A ranking of the report holds entries of its table only, and none it leaves out is larger than one it
  shows.\<close>

lemma ranked_shows_largest:
  assumes "0 \<le> limit" and "x \<in> set (ranked f limit xs)" and "y \<in> set xs" and "y \<notin> set (ranked f limit xs)"
  shows "f y \<le> f x \<and> x \<in> set xs"
proof
  show "f y \<le> f x" by (rule ranked_top [OF assms])
  show "x \<in> set xs" using ranked_subset [OF assms(1)] assms(2) by (rule subsetD)
qed

section \<open>Reference counts\<close>

text \<open>C27: the table by source is a partition: whenever every category has a group, the totals of the groups it
  prints add up to the sum of all tagged counts.\<close>

theorem rc_sources_partition:
  assumes "grouped_rows tagged = Inr rows"
  shows "sum_list (map (\<lambda>label. total_of (get_default [] (nested rows) label)) (map fst RC_GROUPS)) = total_of tagged"
  by (rule sources_total [OF assms])

theorem rc_sources_partition_witness:
  "sum_list (map (\<lambda>label. total_of (get_default [] (nested [(''Explicit drop at last use'', (''list'', ''dec''), 4),
     (''Unattributed'', (''list'', ''inc''), 9)]) label)) (map fst RC_GROUPS)) = 13"
proof -
  have "grouped_rows [((''list'', ''dec'', 3, ''drop:call+pair:stored''), 4), ((''list'', ''inc'', 0, ''unmarked''), 9)]
    = Inr [(''Explicit drop at last use'', (''list'', ''dec''), 4), (''Unattributed'', (''list'', ''inc''), 9)]" by code_simp
  from rc_sources_partition [OF this] show ?thesis by simp
qed

text \<open>C28: the verdict line is right: there is no mismatch exactly when, for every kind and direction, the kinds run
  counted what the tags sum to; and then, for tags of known kinds, the grand total against which all shares
  are printed is the sum of all tagged counts.\<close>

theorem rc_verdict:
  "(mismatches tagged kinds = Inr [] \<longleftrightarrow>
      (\<forall>kind \<in> set all_kinds. \<forall>d \<in> {''inc'', ''dec''}. dict_get kinds (kind, d) = Some (summed tagged kind d)))
   \<and> (mismatches tagged kinds = Inr [] \<longrightarrow> rc_kinds kinds tagged = Inr (out, grand) \<longrightarrow>
      (\<forall>((k, d, f, c), n) \<in> set tagged. k \<in> set all_kinds \<and> d \<in> {''inc'', ''dec''}) \<longrightarrow> grand = total_of tagged)"
  using mismatches_none [of tagged kinds] verdict_total [of kinds tagged out grand] by fastforce

theorem rc_verdict_witness:
  "mismatches [((''list'', ''inc'', 0, ''unmarked''), 9)]
     (map (\<lambda>k. (k, if k = (''list'', ''inc'') then 9 else 0)) (List.product all_kinds [''inc'', ''dec''])) = Inr []"
  unfolding conjunct1 [OF rc_verdict] by code_simp

section \<open>Profile\<close>

text \<open>C29: the inclusive samples of a symbol are the sum over the lines of the call graph that carry it and have no
  ancestor with the same symbol, an ancestor being an earlier line that is indented less than every line after
  it up to this one: recursion is counted once per path.\<close>

theorem inclusive_samples_outermost:
  "get_default 0 (snd (fold visit nodes ([], []))) symbol =
     sum_list (map (samples_of nodes) (filter (\<lambda>j. symbol_of nodes j = symbol \<and> outermost nodes j) [0..<length nodes]))"
  by (rule inclusive_spec)

end
