(* ===== verification/Prof_Table.thy ===== *)
theory Prof_Table
  imports Py_Data "HOL-Library.Word"
begin

unbundle bit_operations_syntax

text \<open>
  The C that \<^verbatim>\<open>instrument_copies.py\<close> puts in front of the program: a hash table with open addressing
  that counts, per call site and path, how often the path ran and how much it moved, and the report it
  writes at exit. The 64-bit arithmetic wraps as the C does; a row with \<open>hits = 0\<close> is a free row, and
  a probe that finds neither its key nor a free row never ends (\<^const>\<open>None\<close>).

  The abstract view of a table is the finite map from keys to counters that its report prints.
\<close>

section \<open>The C\<close>

datatype prof_kind =
    PROF_LIST_FALLBACK | PROF_LIST_UNIQUE | PROF_STRING_FALLBACK | PROF_STRING_UNIQUE
  | PROF_LIST_BORROWED | PROF_STRING_BORROWED

fun prof_kind_code :: "prof_kind \<Rightarrow> nat" where
  "prof_kind_code PROF_LIST_FALLBACK = 0"
| "prof_kind_code PROF_LIST_UNIQUE = 1"
| "prof_kind_code PROF_STRING_FALLBACK = 2"
| "prof_kind_code PROF_STRING_UNIQUE = 3"
| "prof_kind_code PROF_LIST_BORROWED = 4"
| "prof_kind_code PROF_STRING_BORROWED = 5"

fun prof_kind_name :: "prof_kind \<Rightarrow> string" where
  "prof_kind_name PROF_LIST_FALLBACK = ''list_fallback''"
| "prof_kind_name PROF_LIST_UNIQUE = ''list_unique''"
| "prof_kind_name PROF_STRING_FALLBACK = ''string_fallback''"
| "prof_kind_name PROF_STRING_UNIQUE = ''string_unique''"
| "prof_kind_name PROF_LIST_BORROWED = ''list_borrowed''"
| "prof_kind_name PROF_STRING_BORROWED = ''string_borrowed''"

type_synonym u64 = "64 word"

record prof_row =
  address :: u64
  kind :: prof_kind
  hits :: u64
  units :: u64

text \<open>The array \<open>prof_rows\<close>, indexed by slots below \<open>PROF_SLOTS\<close>; a static array starts as zeros.\<close>

type_synonym prof_table = "nat \<Rightarrow> prof_row"

definition PROF_SLOTS :: nat where
  "PROF_SLOTS = 65536"

definition empty_row :: prof_row where
  "empty_row = \<lparr>address = 0, kind = PROF_LIST_FALLBACK, hits = 0, units = 0\<rparr>"

definition prof_rows0 :: prof_table where
  "prof_rows0 = (\<lambda>_. empty_row)"

definition prof_slot :: "prof_kind \<Rightarrow> u64 \<Rightarrow> nat" where
  "prof_slot k a =
     (let key = (a * 0x9E3779B97F4A7C15) XOR of_nat (prof_kind_code k)
      in unat (ucast (drop_bit 20 key) :: 32 word) AND (PROF_SLOTS - 1))"

definition next_slot :: "nat \<Rightarrow> nat" where
  "next_slot slot = (slot + 1) AND (PROF_SLOTS - 1)"

partial_function (option) prof_probe ::
  "prof_table \<Rightarrow> nat \<Rightarrow> prof_kind \<Rightarrow> u64 \<Rightarrow> u64 \<Rightarrow> prof_table option" where
  "prof_probe rows slot k a n =
     (let row0 = rows slot;
          row = (if hits row0 = 0 then row0\<lparr>address := a, kind := k\<rparr> else row0)
      in if address row = a \<and> kind row = k
         then Some (rows(slot := row\<lparr>hits := hits row + 1, units := units row + n\<rparr>))
         else prof_probe (rows(slot := row)) (next_slot slot) k a n)"

definition prof_hit :: "prof_table \<Rightarrow> prof_kind \<Rightarrow> u64 \<Rightarrow> u64 \<Rightarrow> prof_table option" where
  "prof_hit rows k a n = prof_probe rows (prof_slot k a) k a n"

text \<open>The calls of one run, in order: path, return address, units.\<close>

fun prof_run :: "(prof_kind \<times> u64 \<times> u64) list \<Rightarrow> prof_table \<Rightarrow> prof_table option" where
  "prof_run [] rows = Some rows"
| "prof_run ((k, a, n) # calls) rows = Option.bind (prof_hit rows k a n) (prof_run calls)"

definition used_rows :: "prof_table \<Rightarrow> prof_row list" where
  "used_rows rows = filter (\<lambda>r. hits r \<noteq> 0) (map rows [0..<PROF_SLOTS])"

section \<open>Probing\<close>

lemma PROF_SLOTS_mask: "PROF_SLOTS - 1 = mask 16"
  by (simp add: PROF_SLOTS_def mask_eq_exp_minus_1)

lemma and_slots: "n AND (PROF_SLOTS - 1) = n mod PROF_SLOTS"
  unfolding PROF_SLOTS_mask by (simp add: PROF_SLOTS_def take_bit_eq_mask [symmetric] take_bit_eq_mod)

lemma PROF_SLOTS_pos [simp]: "0 < PROF_SLOTS"
  by (simp add: PROF_SLOTS_def)

lemma next_slot_mod: "next_slot slot = (slot + 1) mod PROF_SLOTS"
  unfolding next_slot_def by (rule and_slots)

lemma prof_slot_less [simp]: "prof_slot k a < PROF_SLOTS"
  unfolding prof_slot_def Let_def and_slots by simp

abbreviation row_key :: "prof_row \<Rightarrow> prof_kind \<times> u64" where
  "row_key r \<equiv> (kind r, address r)"

text \<open>The slot \<open>d\<close> steps after the home of a key.\<close>

definition probe_at :: "prof_kind \<times> u64 \<Rightarrow> nat \<Rightarrow> nat" where
  "probe_at key d = (prof_slot (fst key) (snd key) + d) mod PROF_SLOTS"

definition used :: "prof_table \<Rightarrow> nat \<Rightarrow> bool" where
  "used rows slot \<longleftrightarrow> hits (rows slot) \<noteq> 0"

text \<open>The slot at which a probe of \<open>key\<close> stops: free, or already holding the key.\<close>

definition stops :: "prof_table \<Rightarrow> prof_kind \<times> u64 \<Rightarrow> nat \<Rightarrow> bool" where
  "stops rows key slot \<longleftrightarrow> \<not> used rows slot \<or> row_key (rows slot) = key"

lemma probe_at_less [simp]: "probe_at key d < PROF_SLOTS"
  by (simp add: probe_at_def)

lemma next_probe_at: "next_slot (probe_at key d) = probe_at key (Suc d)"
  by (simp add: probe_at_def next_slot_mod mod_simps)

lemma probe_at_inj:
  assumes "probe_at key d = probe_at key e" and "d < PROF_SLOTS" and "e < PROF_SLOTS"
  shows "d = e"
proof -
  have "\<bar>int d - int e\<bar> < int PROF_SLOTS" using assms(2,3) by linarith
  moreover have "int PROF_SLOTS dvd int d - int e"
  proof -
    let ?h = "prof_slot (fst key) (snd key)"
    have "int (?h + d) mod int PROF_SLOTS = int (?h + e) mod int PROF_SLOTS"
      using arg_cong [OF assms(1), of int] unfolding probe_at_def zmod_int .
    then show ?thesis by (simp add: mod_eq_dvd_iff)
  qed
  ultimately show ?thesis using zdvd_not_zless [of "int d - int e" "int PROF_SLOTS"]
    by (metis abs_ge_zero dvd_abs_iff dvd_imp_le_int eq_iff_diff_eq_0 int_int_eq leD abs_of_nat)
qed

lemma probe_at_surj: "x < PROF_SLOTS \<Longrightarrow> \<exists>d < PROF_SLOTS. probe_at key d = x"
proof -
  assume x: "x < PROF_SLOTS"
  let ?h = "prof_slot (fst key) (snd key)"
  let ?d = "(x + (PROF_SLOTS - ?h)) mod PROF_SLOTS"
  have "?h \<le> PROF_SLOTS" using prof_slot_less less_imp_le by blast
  then have "probe_at key ?d = (x + PROF_SLOTS) mod PROF_SLOTS"
    by (simp add: probe_at_def mod_simps add.assoc add.commute [of ?h])
  with x show ?thesis by (intro exI [of _ ?d]) simp
qed

text \<open>One probe walks over slots that do not stop it and updates the first one that does.\<close>

definition claim :: "prof_kind \<times> u64 \<Rightarrow> u64 \<Rightarrow> prof_row \<Rightarrow> prof_row" where
  "claim key n row = \<lparr>address = snd key, kind = fst key,
     hits = hits row + 1,
     units = units row + n\<rparr>"

lemma prof_probe_walk:
  assumes "\<And>e. d \<le> e \<Longrightarrow> e < d + m \<Longrightarrow> \<not> stops rows key (probe_at key e)"
    and "stops rows key (probe_at key (d + m))"
  shows "prof_probe rows (probe_at key d) (fst key) (snd key) n
       = Some (rows(probe_at key (d + m) := claim key n (rows (probe_at key (d + m)))))"
  using assms
proof (induction m arbitrary: d)
  case 0
  then have "stops rows key (probe_at key d)" by simp
  then show ?case
    by (subst prof_probe.simps) (auto simp: stops_def used_def claim_def Let_def prod_eq_iff)
next
  case (Suc m)
  from Suc.prems(1) [of d] have no: "\<not> stops rows key (probe_at key d)" by simp
  then have "prof_probe rows (probe_at key d) (fst key) (snd key) n
      = prof_probe rows (probe_at key (Suc d)) (fst key) (snd key) n"
    by (subst prof_probe.simps) (auto simp: stops_def used_def Let_def next_probe_at prod_eq_iff)
  also have "\<dots> = Some (rows(probe_at key (Suc d + m) := claim key n (rows (probe_at key (Suc d + m)))))"
    by (rule Suc.IH) (use Suc.prems in auto)
  finally show ?case by (simp add: fun_upd_def)
qed

lemma prof_hit_first_stop:
  assumes "stops rows key (probe_at key d)" and "\<And>e. e < d \<Longrightarrow> \<not> stops rows key (probe_at key e)"
  shows "prof_hit rows (fst key) (snd key) n
       = Some (rows(probe_at key d := claim key n (rows (probe_at key d))))"
  using prof_probe_walk [of 0 d rows key n] assms by (simp add: prof_hit_def probe_at_def)


section \<open>The invariant and the abstract counters\<close>

text \<open>
  Keys of used rows are distinct, and from a key's home to the slot that holds it every slot is used,
  so a probe cannot stop before it reaches its key.
\<close>

definition table_ok :: "prof_table \<Rightarrow> bool" where
  "table_ok rows \<longleftrightarrow>
     (\<forall>x < PROF_SLOTS. \<forall>y < PROF_SLOTS. used rows x \<and> used rows y \<and> row_key (rows x) = row_key (rows y) \<longrightarrow> x = y)
   \<and> (\<forall>d < PROF_SLOTS. \<forall>key. used rows (probe_at key d) \<and> row_key (rows (probe_at key d)) = key
        \<longrightarrow> (\<forall>e < d. used rows (probe_at key e)))
   \<and> (\<forall>x. \<not> used rows x \<longrightarrow> units (rows x) = 0)"

definition counters :: "prof_table \<Rightarrow> (prof_kind \<times> u64) \<rightharpoonup> (u64 \<times> u64)" where
  "counters rows = map_of (map (\<lambda>r. (row_key r, hits r, units r)) (used_rows rows))"

definition key_set :: "prof_table \<Rightarrow> (prof_kind \<times> u64) set" where
  "key_set rows = {row_key (rows x) | x. x < PROF_SLOTS \<and> used rows x}"

lemma table_ok_init: "table_ok prof_rows0"
  by (simp add: table_ok_def prof_rows0_def empty_row_def used_def)

lemma dom_counters: "dom (counters rows) = key_set rows"
  by (force simp: counters_def key_set_def dom_map_of_conv_image_fst used_rows_def used_def)

lemma counters_slot:
  assumes "table_ok rows" and "x < PROF_SLOTS" and "used rows x"
  shows "counters rows (row_key (rows x)) = Some (hits (rows x), units (rows x))"
proof -
  let ?l = "map (\<lambda>r. (row_key r, hits r, units r)) (used_rows rows)"
  have "distinct (map fst ?l)"
  proof -
    have "map fst ?l = map row_key (map rows (filter (used rows) [0..<PROF_SLOTS]))"
      by (simp add: used_rows_def used_def [abs_def] filter_map o_def)
    moreover have "inj_on (row_key \<circ> rows) (set (filter (used rows) [0..<PROF_SLOTS]))"
      using assms(1) by (auto simp: table_ok_def inj_on_def)
    ultimately show ?thesis by (simp add: distinct_map o_def)
  qed
  moreover have "(row_key (rows x), hits (rows x), units (rows x)) \<in> set ?l"
    using assms(2,3) by (force simp: used_rows_def used_def)
  ultimately show ?thesis unfolding counters_def by (rule map_of_is_SomeI)
qed

lemma counters_None: "key \<notin> key_set rows \<Longrightarrow> counters rows key = None"
  using dom_counters by blast

text \<open>Where the probe of a key stops.\<close>

lemma present_stop:
  assumes ok: "table_ok rows" and "key \<in> key_set rows"
  obtains d where "d < PROF_SLOTS" "used rows (probe_at key d)" "row_key (rows (probe_at key d)) = key"
    "\<And>e. e < d \<Longrightarrow> \<not> stops rows key (probe_at key e)"
proof -
  from assms(2) obtain x where x: "x < PROF_SLOTS" "used rows x" "row_key (rows x) = key"
    by (auto simp: key_set_def)
  from probe_at_surj [OF x(1), of key] obtain d where d: "d < PROF_SLOTS" "probe_at key d = x" by blast
  have "\<not> stops rows key (probe_at key e)" if "e < d" for e
  proof -
    from ok d x that have "used rows (probe_at key e)" unfolding table_ok_def by blast
    moreover have "row_key (rows (probe_at key e)) \<noteq> key"
    proof
      assume "row_key (rows (probe_at key e)) = key"
      with ok x d \<open>used rows (probe_at key e)\<close> have "probe_at key e = probe_at key d"
        unfolding table_ok_def by (metis probe_at_less)
      with probe_at_inj [OF this] that d(1) show False by simp
    qed
    ultimately show ?thesis by (simp add: stops_def)
  qed
  with d x show ?thesis using that by blast
qed

lemma absent_stop:
  assumes "key \<notin> key_set rows" and "x < PROF_SLOTS" "\<not> used rows x"
  obtains d where "d < PROF_SLOTS" "\<not> used rows (probe_at key d)"
    "\<And>e. e < d \<Longrightarrow> used rows (probe_at key e) \<and> \<not> stops rows key (probe_at key e)"
proof -
  from probe_at_surj [OF assms(2), of key] obtain d0 where d0: "d0 < PROF_SLOTS" "\<not> used rows (probe_at key d0)"
    using assms(3) by blast
  let ?P = "\<lambda>d. \<not> used rows (probe_at key d)"
  let ?d = "LEAST d. ?P d"
  have "?P ?d" using d0(2) by (rule LeastI [where P = ?P])
  moreover have "?d < PROF_SLOTS" using d0 Least_le [of ?P d0] by simp
  moreover have "used rows (probe_at key e) \<and> \<not> stops rows key (probe_at key e)" if "e < ?d" for e
  proof -
    from not_less_Least [OF that] have u: "used rows (probe_at key e)" by simp
    moreover have "row_key (rows (probe_at key e)) \<noteq> key"
      using assms(1) u by (auto simp: key_set_def)
    ultimately show ?thesis by (simp add: stops_def)
  qed
  ultimately show ?thesis using that by blast
qed


section \<open>One hit\<close>

text \<open>The abstract effect of a hit: one more hit and \<open>n\<close> more units for the key, from zero if it is new.\<close>

definition bump :: "prof_kind \<times> u64 \<Rightarrow> u64 \<Rightarrow> ((prof_kind \<times> u64) \<rightharpoonup> (u64 \<times> u64)) \<Rightarrow> (prof_kind \<times> u64) \<rightharpoonup> (u64 \<times> u64)" where
  "bump key n m = m(key \<mapsto> (case m key of None \<Rightarrow> (1, n) | Some (h, u) \<Rightarrow> (h + 1, u + n)))"

lemma claim_slot:
  fixes n :: u64
  assumes ok: "table_ok rows" and d: "d < PROF_SLOTS"
    and stop: "stops rows key (probe_at key d)"
    and before: "\<And>e. e < d \<Longrightarrow> used rows (probe_at key e)"
    and only: "\<And>y. y < PROF_SLOTS \<Longrightarrow> used rows y \<Longrightarrow> row_key (rows y) = key \<Longrightarrow> y = probe_at key d"
    and no_wrap: "hits (rows (probe_at key d)) + 1 \<noteq> 0"
  defines "rows' \<equiv> rows(probe_at key d := claim key n (rows (probe_at key d)))"
  shows "table_ok rows'" and "counters rows' = bump key n (counters rows)"
proof -
  let ?x = "probe_at key d"
  have at_x: "row_key (rows' ?x) = key" "used rows' ?x" "hits (rows' ?x) = hits (rows ?x) + 1"
    "units (rows' ?x) = units (rows ?x) + n"
    using no_wrap by (simp_all add: rows'_def claim_def used_def)
  have off_x: "rows' y = rows y" "used rows' y = used rows y" if "y \<noteq> ?x" for y
    using that by (simp_all add: rows'_def used_def)
  have mono: "used rows' y" if "used rows y" for y
    using that at_x(2) off_x(2) by (cases "y = ?x") auto
  show ok': "table_ok rows'"
    unfolding table_ok_def
  proof (intro conjI allI impI)
    fix y z
    assume "y < PROF_SLOTS" "z < PROF_SLOTS" "used rows' y \<and> used rows' z \<and> row_key (rows' y) = row_key (rows' z)"
    then show "y = z"
      using ok only at_x(1) off_x unfolding table_ok_def by (cases "y = ?x"; cases "z = ?x") metis+
  next
    fix d' key' e
    assume d': "d' < PROF_SLOTS" and k': "used rows' (probe_at key' d') \<and> row_key (rows' (probe_at key' d')) = key'"
      and e: "e < d'"
    have "used rows (probe_at key' e)"
    proof (cases "probe_at key' d' = ?x")
      case True
      with k' at_x(1) have "key' = key" by simp
      with True d d' have "d' = d" using probe_at_inj by blast
      with before e \<open>key' = key\<close> show ?thesis by simp
    next
      case False
      with k' off_x have "used rows (probe_at key' d')" "row_key (rows (probe_at key' d')) = key'" by simp_all
      with ok d' e show ?thesis unfolding table_ok_def by blast
    qed
    then show "used rows' (probe_at key' e)" by (rule mono)
  next
    fix y
    assume "\<not> used rows' y"
    then show "units (rows' y) = 0" using ok at_x(2) off_x unfolding table_ok_def by metis
  qed
  have x: "?x < PROF_SLOTS" by simp
  show "counters rows' = bump key n (counters rows)"
  proof
    fix k
    show "counters rows' k = bump key n (counters rows) k"
    proof (cases "k = key")
      case True
      have new: "counters rows' key = Some (hits (rows ?x) + 1, units (rows ?x) + n)"
        using counters_slot [OF ok' x at_x(2)] at_x by simp
      show ?thesis
      proof (cases "used rows ?x")
        case u: True
        with stop have "row_key (rows ?x) = key" by (simp add: stops_def)
        with counters_slot [OF ok x u] have "counters rows key = Some (hits (rows ?x), units (rows ?x))" by simp
        with new True show ?thesis by (simp add: bump_def)
      next
        case u: False
        with only have "key \<notin> key_set rows" by (auto simp: key_set_def)
        moreover have "units (rows ?x) = 0" "hits (rows ?x) = 0"
          using ok u by (auto simp: table_ok_def used_def)
        ultimately show ?thesis using new True by (simp add: bump_def counters_None)
      qed
    next
      case False
      show ?thesis
      proof (cases "k \<in> key_set rows")
        case True
        then obtain y where y: "y < PROF_SLOTS" "used rows y" "row_key (rows y) = k"
          by (auto simp: key_set_def)
        with False stop have "y \<noteq> ?x" by (auto simp: stops_def)
        with y off_x have "used rows' y" "rows' y = rows y" by simp_all
        then show ?thesis
          using counters_slot [OF ok y(1,2)] counters_slot [OF ok' y(1)] y False by (simp add: bump_def)
      next
        case no: False
        have "k \<notin> key_set rows'"
          using no False at_x(1) off_x by (auto simp: key_set_def) metis
        with no False show ?thesis by (simp add: bump_def counters_None)
      qed
    qed
  qed
qed

lemma free_slot:
  assumes "table_ok rows" and "card (key_set rows) < PROF_SLOTS"
  shows "\<exists>x < PROF_SLOTS. \<not> used rows x"
proof (rule ccontr)
  assume "\<not> ?thesis"
  then have all: "\<And>x. x < PROF_SLOTS \<Longrightarrow> used rows x" by blast
  then have "key_set rows = (row_key \<circ> rows) ` {..<PROF_SLOTS}" by (auto simp: key_set_def)
  moreover have "inj_on (row_key \<circ> rows) {..<PROF_SLOTS}"
    using assms(1) all unfolding table_ok_def inj_on_def by fastforce
  ultimately show False using assms(2) card_image by fastforce
qed

lemma prof_hit_refines:
  assumes ok: "table_ok rows"
    and room: "key \<in> key_set rows \<or> card (key_set rows) < PROF_SLOTS"
    and small: "\<And>h u. counters rows key = Some (h, u) \<Longrightarrow> h + 1 \<noteq> 0"
  shows "\<exists>rows'. prof_hit rows (fst key) (snd key) n = Some rows'
           \<and> table_ok rows' \<and> counters rows' = bump key n (counters rows)"
proof (cases "key \<in> key_set rows")
  case True
  from present_stop [OF ok True] obtain d where d: "d < PROF_SLOTS" "used rows (probe_at key d)"
    "row_key (rows (probe_at key d)) = key" "\<And>e. e < d \<Longrightarrow> \<not> stops rows key (probe_at key e)" by metis
  have stop: "stops rows key (probe_at key d)" using d(3) by (simp add: stops_def)
  have before: "used rows (probe_at key e)" if "e < d" for e using d(4) [OF that] by (simp add: stops_def)
  have only: "y = probe_at key d" if "y < PROF_SLOTS" "used rows y" "row_key (rows y) = key" for y
    using ok that d(2,3) unfolding table_ok_def by (metis probe_at_less)
  have "hits (rows (probe_at key d)) + 1 \<noteq> 0"
    using small counters_slot [OF ok probe_at_less d(2)] d(3) by simp
  then show ?thesis
    using prof_hit_first_stop [OF stop d(4)] claim_slot [OF ok d(1) stop before only] by blast
next
  case False
  with room ok free_slot obtain x where x: "x < PROF_SLOTS" "\<not> used rows x" by blast
  from absent_stop [OF False x] obtain d where d: "d < PROF_SLOTS" "\<not> used rows (probe_at key d)"
    "\<And>e. e < d \<Longrightarrow> used rows (probe_at key e) \<and> \<not> stops rows key (probe_at key e)" by metis
  have stop: "stops rows key (probe_at key d)" using d(2) by (simp add: stops_def)
  have only: "y = probe_at key d" if "y < PROF_SLOTS" "used rows y" "row_key (rows y) = key" for y
    using False that by (auto simp: key_set_def)
  have "hits (rows (probe_at key d)) + 1 \<noteq> 0" using d(2) by (simp add: used_def)
  then show ?thesis
    using prof_hit_first_stop [OF stop] claim_slot [OF ok d(1) stop _ only] d(3) by blast
qed

text \<open>C40: on a full table a hit whose key is absent never returns: the probe finds neither the key nor a free
  row. A program with more than 65536 distinct call sites would hang instead of losing a row.\<close>

theorem prof_hit_full_diverges:
  assumes "\<And>x. x < PROF_SLOTS \<Longrightarrow> used rows x" and "(k, a) \<notin> key_set rows"
  shows "prof_hit rows k a n = None"
proof (rule ccontr)
  let ?stuck = "\<lambda>rows slot k a. slot < PROF_SLOTS \<and> (\<forall>x < PROF_SLOTS. used rows x) \<and> (k, a) \<notin> key_set rows"
  assume "prof_hit rows k a n \<noteq> None"
  then obtain r where r: "prof_probe rows (prof_slot k a) k a n = Some r"
    by (auto simp: prof_hit_def)
  have "\<not> ?stuck rows (prof_slot k a) k a"
  proof (rule prof_probe.raw_induct [where P = "\<lambda>rows slot k a n r. \<not> ?stuck rows slot k a", OF _ r])
    fix probe rows slot k a n r
    assume IH: "\<And>rows slot k a n r. probe rows slot k a n = Some r \<Longrightarrow> \<not> ?stuck rows slot k a"
      and eq: "(let row0 = rows slot; row = if hits row0 = 0 then row0\<lparr>address := a, kind := k\<rparr> else row0
        in if address row = a \<and> kind row = k
           then Some (rows(slot := row\<lparr>hits := hits row + 1, units := units row + n\<rparr>))
           else probe (rows(slot := row)) (next_slot slot) k a n) = Some r"
    show "\<not> ?stuck rows slot k a"
    proof
      assume st: "?stuck rows slot k a"
      then have u: "hits (rows slot) \<noteq> 0" and ne: "\<not> (address (rows slot) = a \<and> kind (rows slot) = k)"
        by (auto simp: used_def key_set_def)
      with eq have "probe rows (next_slot slot) k a n = Some r" by (simp add: Let_def split: if_splits)
      from IH [OF this] st show False by (simp add: next_slot_mod)
    qed
  qed
  with assms show False by auto
qed

theorem prof_hit_full_diverges_witness:
  "prof_hit (\<lambda>_. \<lparr>address = 1, kind = PROF_LIST_UNIQUE, hits = 1, units = 0\<rparr>) PROF_LIST_UNIQUE 2 5 = None"
  by (rule prof_hit_full_diverges) (auto simp: used_def key_set_def used_rows_def)

section \<open>A whole run\<close>

definition calls_of :: "prof_kind \<times> u64 \<Rightarrow> (prof_kind \<times> u64 \<times> u64) list \<Rightarrow> (prof_kind \<times> u64 \<times> u64) list" where
  "calls_of key calls = filter (\<lambda>(k, a, n). (k, a) = key) calls"

definition run_counters :: "(prof_kind \<times> u64 \<times> u64) list \<Rightarrow> (prof_kind \<times> u64) \<rightharpoonup> (u64 \<times> u64)" where
  "run_counters calls key =
     (if calls_of key calls = [] then None
      else Some (of_nat (length (calls_of key calls)), sum_list (map (\<lambda>(k, a, n). n) (calls_of key calls))))"

lemma run_counters_snoc: "run_counters (calls @ [(k, a, n)]) = bump (k, a) n (run_counters calls)"
  by (auto simp: run_counters_def bump_def calls_of_def fun_eq_iff)

lemma dom_run_counters: "dom (run_counters calls) = (\<lambda>(k, a, n). (k, a)) ` set calls"
  by (force simp: run_counters_def calls_of_def dom_def filter_empty_conv split: if_splits)

lemma prof_run_append: "prof_run (xs @ ys) rows = Option.bind (prof_run xs rows) (prof_run ys)"
  by (induction xs arbitrary: rows) (auto split: Option.bind_splits)

text \<open>C10: a run of hits with at most 65536 distinct keys always returns, and its table is the abstract map: each
  key that was hit carries the number of its hits and the sum of its units modulo \<open>2 ^ 64\<close>, and no other
  key has a row.\<close>

theorem prof_run_counts:
  assumes "card ((\<lambda>(k, a, n). (k, a)) ` set calls) \<le> PROF_SLOTS" and "length calls < 2 ^ 64"
  shows "\<exists>rows. prof_run calls prof_rows0 = Some rows \<and> table_ok rows \<and> counters rows = run_counters calls"
  using assms
proof (induction calls rule: rev_induct)
  case Nil
  have "used_rows prof_rows0 = []"
    by (simp add: used_rows_def prof_rows0_def empty_row_def)
  then have "counters prof_rows0 = run_counters []"
    by (simp add: counters_def run_counters_def calls_of_def fun_eq_iff)
  then show ?case using table_ok_init by simp
next
  case (snoc call calls)
  obtain k a n where call: "call = (k, a, n)" by (cases call)
  let ?key = "\<lambda>(k, a, n). (k, a)"
  let ?K = "?key ` set calls"
  have "card ?K \<le> card (?key ` set (calls @ [call]))" by (intro card_mono image_mono) auto
  with snoc obtain rows where rows: "prof_run calls prof_rows0 = Some rows" "table_ok rows"
    "counters rows = run_counters calls" by auto
  have K: "key_set rows = ?K" using rows(3) by (simp add: dom_counters [symmetric] dom_run_counters)
  have room: "(k, a) \<in> key_set rows \<or> card (key_set rows) < PROF_SLOTS"
  proof (cases "(k, a) \<in> ?K")
    case False
    then have "card (insert (k, a) ?K) = Suc (card ?K)" by simp
    with snoc.prems(1) K show ?thesis by (simp add: call)
  qed (simp add: K)
  have no_wrap: "h + 1 \<noteq> 0" if "counters rows (k, a) = Some (h, u)" for h u
  proof -
    from that rows(3) have h: "h = of_nat (length (calls_of (k, a) calls))"
      by (simp add: run_counters_def split: if_splits)
    have "length (calls_of (k, a) calls) \<le> length calls" by (simp add: calls_of_def)
    with snoc.prems(2) have lt: "Suc (length (calls_of (k, a) calls)) < 2 ^ 64" by simp
    have "h + 1 = of_nat (Suc (length (calls_of (k, a) calls)))" by (simp add: h)
    moreover have "unat (of_nat (Suc (length (calls_of (k, a) calls))) :: u64) = Suc (length (calls_of (k, a) calls))"
      using lt by (simp add: unat_of_nat take_bit_nat_eq_self del: of_nat_Suc)
    ultimately show ?thesis by (metis Zero_not_Suc unat_0)
  qed
  have "\<exists>rows'. prof_hit rows (fst (k, a)) (snd (k, a)) n = Some rows'
      \<and> table_ok rows' \<and> counters rows' = bump (k, a) n (counters rows)"
    by (rule prof_hit_refines [OF rows(2) room]) (rule no_wrap)
  then obtain rows' where
    "prof_hit rows k a n = Some rows'" "table_ok rows'" "counters rows' = bump (k, a) n (counters rows)"
    by auto
  with rows show ?case by (simp add: prof_run_append call run_counters_snoc)
qed

theorem prof_run_counts_witness:
  "\<exists>rows. prof_run [(PROF_LIST_UNIQUE, 16, 3), (PROF_LIST_BORROWED, 16, 9), (PROF_LIST_UNIQUE, 16, 4)] prof_rows0 = Some rows
     \<and> counters rows (PROF_LIST_UNIQUE, 16) = Some (2, 7)"
proof -
  let ?calls = "[(PROF_LIST_UNIQUE, 16, 3), (PROF_LIST_BORROWED, 16, 9), (PROF_LIST_UNIQUE, 16, 4)] :: (prof_kind \<times> u64 \<times> u64) list"
  have "\<exists>rows. prof_run ?calls prof_rows0 = Some rows \<and> table_ok rows \<and> counters rows = run_counters ?calls"
    by (rule prof_run_counts) (simp_all add: PROF_SLOTS_def card_insert_if)
  moreover have "run_counters ?calls (PROF_LIST_UNIQUE, 16) = Some (2, 7)"
    by (simp add: run_counters_def calls_of_def)
  ultimately show ?thesis by metis
qed

end
