(* ===== verification/Prof_Report.thy ===== *)
theory Prof_Report
  imports Prof_Table Report_Copies
begin

text \<open>
  The file between the instrumented program and the report: \<open>prof_report\<close> of the C prelude prints the load
  address and the used rows of the table, and \<open>read_prof\<close> of \<^verbatim>\<open>report.py\<close> reads them. The C library's \<open>%p\<close>
  is a lower-case hexadecimal number with its prefix, as on macOS.
\<close>

definition show_u64 :: "u64 \<Rightarrow> string" where
  "show_u64 n = show_nat (unat n)"

definition show_pointer :: "u64 \<Rightarrow> string" where
  "show_pointer a = ''0x'' @ hex_digits (unat a)"

definition prof_fields :: "prof_row \<Rightarrow> string list" where
  "prof_fields r = [prof_kind_name (kind r), show_pointer (address r), show_u64 (hits r), show_u64 (units r)]"

definition prof_report :: "u64 \<Rightarrow> prof_table \<Rightarrow> string" where
  "prof_report load rows =
     concat (map (\<lambda>parts. join [tab] parts @ [newline]) ([''#load'', show_pointer load] # map prof_fields (used_rows rows)))"

text \<open>What the report reads for a row.\<close>

definition row_read :: "prof_row \<Rightarrow> prof_line" where
  "row_read r = (prof_kind_name (kind r), uint (address r), uint (hits r), uint (units r))"

definition plain_word :: "string \<Rightarrow> bool" where
  "plain_word w \<longleftrightarrow> w \<noteq> [] \<and> (\<forall>c \<in> set w. \<not> is_space c)"

lemma plain_word_no_break: "plain_word w \<Longrightarrow> c \<in> set w \<Longrightarrow> \<not> is_line_break c"
  by (fastforce simp: plain_word_def is_space_def is_line_break_def Let_def)

lemma join_no_break: "\<forall>w \<in> set ws. plain_word w \<Longrightarrow> c \<in> set (join [tab] ws) \<Longrightarrow> \<not> is_line_break c"
proof (induction ws rule: induct_list012)
  case (3 v w ws)
  then show ?case using plain_word_no_break [of v c] by (auto simp: is_line_break_def)
qed (auto dest: plain_word_no_break)

lemma splitlines_words:
  assumes "\<And>x. x \<in> set xs \<Longrightarrow> \<forall>w \<in> set (f x). plain_word w"
  shows "splitlines (concat (map (\<lambda>x. join [tab] (f x) @ [newline]) xs)) = map (\<lambda>x. join [tab] (f x)) xs"
proof -
  have "splitlines (concat (map (\<lambda>l. l @ [newline]) (map (\<lambda>x. join [tab] (f x)) xs))) = map (\<lambda>x. join [tab] (f x)) xs"
    by (rule splitlines_concat) (use assms join_no_break in fastforce)
  then show ?thesis by (simp add: o_def)
qed

lemma no_cr_words:
  assumes "\<And>x. x \<in> set xs \<Longrightarrow> \<forall>w \<in> set (f x). plain_word w"
  shows "universal_newlines (concat (map (\<lambda>x. join [tab] (f x) @ [newline]) xs)) = concat (map (\<lambda>x. join [tab] (f x) @ [newline]) xs)"
proof (rule universal_newlines_id)
  have "CHR 0x0D \<notin> set (join [tab] (f x))" if "x \<in> set xs" for x
    using join_no_break [OF assms [OF that], of "CHR 0x0D"] by (auto simp: is_line_break_def)
  then show "CHR 0x0D \<notin> set (concat (map (\<lambda>x. join [tab] (f x) @ [newline]) xs))" by auto
qed

lemma show_nat_word: "plain_word (show_nat n)"
  using show_nat_digits is_digit_not_space by (auto simp: plain_word_def)

lemma show_pointer_word: "plain_word (show_pointer a)"
  using hex_digits_all is_hex_facts by (fastforce simp: plain_word_def show_pointer_def char_class_defs)

lemma kind_name_word: "plain_word (prof_kind_name k)"
  by (cases k) (simp_all add: plain_word_def char_class_defs)

lemma prof_fields_words: "\<forall>w \<in> set (prof_fields r). plain_word w"
  by (simp add: prof_fields_def show_u64_def show_nat_word show_pointer_word kind_name_word)

lemma split_ws_tab: "\<forall>w \<in> set ws. plain_word w \<Longrightarrow> split_ws (join [tab] ws) = ws"
  by (rule split_ws_sep) (auto simp: plain_word_def char_class_defs)

lemma read_pointer: "int16 (show_pointer a) = Inr (uint a)"
  unfolding show_pointer_def int16_hex_nat by simp

lemma read_u64: "py_int (show_u64 n) = Inr (uint n)"
  by (simp add: show_u64_def)

lemma read_row: "read_prof_line (join [tab] (prof_fields r)) (rows, load) = Inr (rows @ [row_read r], load)"
proof -
  let ?l = "join [tab] (prof_fields r)"
  have "\<not> starts_with ?l ''#''" "?l \<noteq> []" by (cases "kind r"; simp add: prof_fields_def)+
  moreover from this have "\<not> starts_with ?l ''#load''" by (cases ?l) auto
  moreover have "split_ws ?l = prof_fields r" by (rule split_ws_tab [OF prof_fields_words])
  ultimately show ?thesis
    by (simp add: read_prof_line_def prof_fields_def read_pointer read_u64 row_read_def del: join.simps)
qed

lemma read_rows: "foldE read_prof_line (map (\<lambda>r. join [tab] (prof_fields r)) rs) (rows, load) = Inr (rows @ map row_read rs, load)"
  by (induction rs arbitrary: rows) (simp_all add: read_row)

lemma read_load: "read_prof_line (join [tab] [''#load'', show_pointer load]) ([], None) = Inr ([], Some (uint load))"
proof -
  have "\<forall>w \<in> set [''#load'', show_pointer load]. plain_word w"
    using show_pointer_word by (simp add: plain_word_def char_class_defs)
  then have "split_ws (join [tab] [''#load'', show_pointer load]) = [''#load'', show_pointer load]" by (rule split_ws_tab)
  moreover have "starts_with (join [tab] [''#load'', show_pointer load]) ''#load''" by simp
  ultimately show ?thesis by (simp add: read_prof_line_def read_pointer del: join.simps)
qed

lemma prof_report_read:
  "read_prof (prof_report load rows) = Inr (map row_read (used_rows rows), uint load)"
proof -
  let ?ws = "[''#load'', show_pointer load] # map prof_fields (used_rows rows)"
  have words: "\<forall>ws \<in> set ?ws. \<forall>w \<in> set ws. plain_word w"
  proof -
    have "plain_word ''#load''" by (simp add: plain_word_def char_class_defs)
    then show ?thesis using prof_fields_words show_pointer_word by auto
  qed
  have "splitlines (prof_report load rows) = map (join [tab]) ?ws"
    unfolding prof_report_def by (rule splitlines_words) (use words in blast)
  then show ?thesis
    using read_load [of load] read_rows [of "used_rows rows" "[]" "Some (uint load)"]
    by (simp add: read_prof_def o_def del: join.simps)
qed

text \<open>C23: what the instrumented program writes at exit is what the report reads: the load address and, in slot
  order, the path name, return address, hits and units of every used row of the table.\<close>

theorem prof_report_roundtrip:
  "read_prof (prof_report load rows) = Inr (map row_read (used_rows rows), uint load)"
  by (rule prof_report_read)

end
