(* ===== verification/Attribution.thy ===== *)
theory Attribution
  imports Emit_Markers_Props Report_Theorems Prof_Report
begin

text \<open>
  Where the attribution scripts meet: the category names that \<^verbatim>\<open>instrument_rc.py\<close> writes are readable by
  \<^verbatim>\<open>report.py\<close>, and the groups of the report cover the categories that the markers can produce.
\<close>

section \<open>Category names have no white space\<close>

definition solid :: "string \<Rightarrow> bool" where
  "solid w \<longleftrightarrow> (\<forall>c \<in> set w. \<not> is_space c)"

lemma solid_simps [simp]: "solid []" "solid (c # w) \<longleftrightarrow> \<not> is_space c \<and> solid w"
  by (auto simp: solid_def)

lemma solid_append [simp]: "solid (a @ b) \<longleftrightarrow> solid a \<and> solid b"
  by (auto simp: solid_def)

lemma solid_cut: "solid s \<Longrightarrow> solid (cut s a b)"
  using set_cut_subset [of s a b] by (auto simp: solid_def)

lemma solid_grp: "solid s \<Longrightarrow> solid (grp s m k)"
  by (cases "map_of (m_caps m) k") (auto simp: grp_def group_def intro: solid_cut)

lemma split_ws_solid: "w \<in> set (split_ws s) \<Longrightarrow> solid w"
proof (induction s rule: split_ws.induct)
  case (1 s)
  let ?t = "dropWhile is_space s"
  have eq: "split_ws s = (if ?t = [] then [] else takeWhile (\<lambda>c. \<not> is_space c) ?t # split_ws (dropWhile (\<lambda>c. \<not> is_space c) ?t))"
    by (subst split_ws.simps) (simp add: Let_def)
  show ?case
  proof (cases "?t = []")
    case False
    then have "split_ws s = takeWhile (\<lambda>c. \<not> is_space c) ?t # split_ws (dropWhile (\<lambda>c. \<not> is_space c) ?t)"
      unfolding eq by (simp only: if_False)
    with "1.prems" have "w = takeWhile (\<lambda>c. \<not> is_space c) ?t \<or> w \<in> set (split_ws (dropWhile (\<lambda>c. \<not> is_space c) ?t))"
      by simp
    moreover have "solid (takeWhile (\<lambda>c. \<not> is_space c) ?t)"
      unfolding solid_def using set_takeWhileD [of _ "\<lambda>c. \<not> is_space c" ?t] by blast
    ultimately show ?thesis using "1.IH" [OF refl False] by blast
  qed (use "1.prems" eq in simp)
qed

lemma split_char_parts: "w \<in> set (split_char c s) \<Longrightarrow> set w \<subseteq> set s"
proof (induction s arbitrary: w)
  case (Cons x xs)
  then show ?case by (cases "split_char c xs") (fastforce split: if_splits)+
qed simp

lemma marker_fields_solid: "p \<in> set (marker_fields body) \<Longrightarrow> w \<in> set p \<Longrightarrow> solid w"
  by (auto simp: marker_fields_def split_ws_solid)

lemma made_solid: "made (marker_fields body) owner orig \<Longrightarrow> solid orig"
  unfolding made_def by (auto intro!: marker_fields_solid simp: nth_mem)

lemma in_take: "take n p = xs \<Longrightarrow> x \<in> set xs \<Longrightarrow> x \<in> set p"
  by (metis in_set_takeD)

lemma region_category_solid:
  assumes "region_category (marker_fields body) category"
  shows "solid category"
proof -
  from assms consider "category = ''unmarked''"
    | (acquire) p rest where "p \<in> set (marker_fields body)" "take 5 p = [''B'', ''A''] @ rest" "length rest = 3"
        "category = acquire_category (rest ! 0) (rest ! 1) (rest ! 2)"
    | (dropped) p how owner partner orig where "p \<in> set (marker_fields body)" "take 4 p = [''B'', how, owner, partner]"
        "made (marker_fields body) owner orig" "category = drop_category orig partner"
    unfolding region_category_def by blast
  then show ?thesis
  proof cases
    case acquire
    then have "rest ! i \<in> set p" if "i < 3" for i using that by (intro in_take [OF acquire(2)]) auto
    then have "solid (rest ! 0)" "solid (rest ! 1)" "solid (rest ! 2)" using marker_fields_solid [OF acquire(1)] by simp_all
    then show ?thesis using acquire(4) by (simp add: acquire_category_def is_space_def)
  next
    case dropped
    then have "solid partner" by (intro marker_fields_solid [OF dropped(1)] in_take [OF dropped(2)]) simp
    with made_solid [OF dropped(3)] dropped(4) show ?thesis
      by (simp add: drop_category_def is_space_def)
  qed (simp add: is_space_def)
qed

lemma trailing_word_solid:
  assumes "re_search TRAILING_WORD w = Some m"
  shows "solid (grp w m 1)"
proof -
  note f = search_Some [OF assms]
  obtain j c where mem: "(j, c) \<in> set (matches TRAILING_WORD w (m_start m) [])"
    and m: "m = \<lparr>m_start = m_start m, m_end = j, m_caps = c\<rparr>"
    using f by (fastforce simp: match_at_def split: list.splits)
  from mem obtain k d where k: "(k, d) \<in> set (matches (Plus word_re) w (m_start m) [])"
    and rest: "(j, c) \<in> set (matches (Seq (Star space_re) TextEnd) w k ((1, m_start m, k) # d))"
    unfolding TRAILING_WORD_def seqs.simps in_matches_Seq [of _ _ "Grp 1 _"] in_matches_Grp by blast
  have c: "c = (1, m_start m, k) # d" by (rule no_groups_caps [OF _ rest]) simp
  have "m_start m \<le> length w" using f by linarith
  then have sp: "spans w (Plus word_re) (m_start m) k" using k matches_iff_spans by blast
  then have "\<forall>i. m_start m \<le> i \<and> i < k \<longrightarrow> i < length w \<and> is_word (w ! i)"
  proof -
    from sp have first: "m_start m < length w" "is_word (w ! m_start m)" and run: "spans w (Star word_re) (Suc (m_start m)) k"
      by (auto simp: spans_Seq spans_Cls)
    show ?thesis
    proof (intro allI impI)
      fix i
      assume "m_start m \<le> i \<and> i < k"
      then show "i < length w \<and> is_word (w ! i)"
        using first spans_Star_Cls [OF run] by (cases "i = m_start m") auto
    qed
  qed
  then have "solid (cut w (m_start m) k)"
    by (auto simp: solid_def in_set_conv_nth length_cut nth_cut is_word_not_space)
  moreover have "grp w m 1 = cut w (m_start m) k" by (subst m) (simp add: grp_def group_def c)
  ultimately show ?thesis by simp
qed

definition names_solid :: "scan_state \<Rightarrow> bool" where
  "names_solid st \<longleftrightarrow> (\<forall>(name, a, b) \<in> set (found st). solid name)"

lemma function_name_solid: "function_name_before source brace = Some name \<Longrightarrow> solid name"
  using trailing_word_solid [unfolded One_nat_def]
  by (auto simp: function_name_before_def Let_def split: if_splits)

lemma scan_token_solid: "names_solid st \<Longrightarrow> names_solid (scan_token source m st)"
  using function_name_solid
  by (auto simp: names_solid_def scan_token_def Let_def split: option.splits if_splits)

lemma rc_functions_solid: "(name, a, b) \<in> set (rc_functions source) \<Longrightarrow> solid name"
proof -
  have "names_solid (fold (scan_token source) ms st)" if "names_solid st" for ms st
    using that by (induction ms arbitrary: st) (simp_all add: scan_token_solid)
  moreover have "names_solid scan_state0" by (simp add: names_solid_def scan_state0_def)
  ultimately have "names_solid (fold (scan_token source) (find_matches SCAN source) scan_state0)" by blast
  then show "(name, a, b) \<in> set (rc_functions source) \<Longrightarrow> solid name"
    by (auto simp: names_solid_def rc_functions_def)
qed

text \<open>The category names a rewrite can list.\<close>

definition produced :: "string \<Rightarrow> bool" where
  "produced c \<longleftrightarrow> c = ''untagged'' \<or> c = ''runtime_other'' \<or> (\<exists>operation. c = ''runtime_list:'' @ operation \<and> solid operation)
     \<or> (\<exists>parent. c = ''cascade:'' @ parent \<and> solid parent) \<or> (\<exists>body. region_category (marker_fields body) c)"

lemma produced_solid: "produced c \<Longrightarrow> solid c"
  using region_category_solid by (auto simp: produced_def is_space_def)

lemma category_number_produced:
  "category_number name names = Inr (n, names') \<Longrightarrow> list_all produced names \<Longrightarrow> produced name \<Longrightarrow> list_all produced names'"
  by (auto simp: category_number_def Let_def fail_rc_def split: if_splits)

lemma tag_regions_produced:
  "tag_regions fbits regions names = Inr (out, names') \<Longrightarrow> list_all produced names \<Longrightarrow>
     \<forall>(code, category) \<in> set regions. produced category \<Longrightarrow> list_all produced names'"
proof (induction regions arbitrary: names out)
  case (Cons piece regions)
  obtain code category where piece: "piece = (code, category)" by force
  with Cons.prems(1) obtain n names1 out1 where n: "category_number category names = Inr (n, names1)"
    and rest: "tag_regions fbits regions names1 = Inr (out1, names')" by (auto simp: bindE_Inr_iff)
  from n Cons.prems have "list_all produced names1" by (intro category_number_produced [OF n]) (auto simp: piece)
  with Cons.IH [OF rest] Cons.prems(3) show ?case by simp
qed simp

lemma split_part_solid: "solid name \<Longrightarrow> i < length (split_char c name) \<Longrightarrow> solid (split_char c name ! i)"
  using split_char_parts [OF nth_mem, of i c name] by (auto simp: solid_def)

lemma split_char_two: "c \<in> set s \<Longrightarrow> 1 < length (split_char c s)"
proof (induction s)
  case (Cons x s)
  obtain w ws where w: "split_char c s = w # ws" by (cases "split_char c s") auto
  with Cons show ?case by auto
qed simp

lemma helper_name_underscore:
  assumes "re_match HELPER_NAME name = Some m"
  shows "CHR ''_'' \<in> set name"
proof -
  have "spans name HELPER_NAME 0 (m_end m)" using match_at_Some [OF assms] by simp
  then have "starts_at name ''blorp_'' 0 \<or> starts_at name ''blorp_string_'' 0"
    by (auto simp: HELPER_NAME_def spans_Alt spans_Seq spans_lit)
  then have "5 < length name \<and> name ! 5 = CHR ''_''"
    using starts_at_nth [of name "''blorp_''" 0 5] starts_at_nth [of name "''blorp_string_''" 0 5] by auto
  then show ?thesis by (metis nth_mem)
qed

lemma rewrite_tagged_produced:
  assumes "rewrite_tagged name body names = Inr (out, names')" and "solid name" and "list_all produced names"
  shows "list_all produced names'"
proof -
  have number: "list_all produced ns" if "category_number c names = Inr (n, ns)" "produced c" for c n ns
    by (rule category_number_produced [OF that(1) assms(3) that(2)])
  have lits: "solid w \<Longrightarrow> produced (''runtime_list:'' @ w)" "solid w \<Longrightarrow> produced (''cascade:'' @ w)" "produced ''runtime_other''" for w
    by (auto simp: produced_def)
  consider (user) user where "re_match USER_NAME name = Some user"
    | (lst) m where "re_match USER_NAME name = None" "re_match LIST_RUNTIME_NAME name = Some m"
    | (helper) m where "re_match USER_NAME name = None" "re_match LIST_RUNTIME_NAME name = None" "re_match HELPER_NAME name = Some m"
    | (other) "re_match USER_NAME name = None" "re_match LIST_RUNTIME_NAME name = None" "re_match HELPER_NAME name = None"
    by (metis option.exhaust)
  then show ?thesis
  proof cases
    case user
    with assms(1) obtain regions where r: "region_tags body name = Inr regions"
      and t: "tag_regions (push_bit CATEGORY_BITS (digits_value (grp name user 1))) regions names = Inr (out, names')"
      by (auto simp: rewrite_tagged_def bindE_Inr_iff)
    have "\<forall>(code, category) \<in> set regions. produced category"
      using region_tags_category [OF r] by (fastforce simp: produced_def)
    with tag_regions_produced [OF t assms(3)] show ?thesis .
  next
    case lst
    with assms(1,2) lits show ?thesis
      by (auto simp: rewrite_tagged_def bindE_Inr_iff solid_grp intro!: number simp del: append.simps)
  next
    case helper
    have "solid (split_char CHR ''_'' name ! 1)"
      using split_part_solid [OF assms(2)] split_char_two [OF helper_name_underscore [OF helper(3)]] by blast
    with helper assms(1,3) lits show ?thesis
      by (auto simp: rewrite_tagged_def bindE_Inr_iff intro!: number split: option.splits if_splits)
  next
    case other
    with assms(1,3) lits show ?thesis
      by (auto simp: rewrite_tagged_def bindE_Inr_iff intro!: number split: if_splits)
  qed
qed

lemma rewrite_bodies_produced:
  "rewrite_bodies source mode fns cursor wrapped names = Inr (out, wrapped', names') \<Longrightarrow> list_all produced names \<Longrightarrow>
     \<forall>(name, a, b) \<in> set fns. solid name \<Longrightarrow> list_all produced names'"
proof (induction source mode fns cursor wrapped names arbitrary: out wrapped' names' rule: rewrite_bodies.induct)
  case (2 source mode name a b fns cursor wrapped names)
  from "2.prems"(1) obtain body names1 body' sites out'
    where 1: "(case mode of Tagged \<Rightarrow> rewrite_tagged name (cut source a b) names
                | Kinds \<Rightarrow> Inr (cut source a b, names)) = Inr (body, names1)"
      and 3: "rewrite_bodies source mode fns b (wrapped + sites) names1 = Inr (out', wrapped', names')"
    by (auto simp: bindE_Inr_iff)
  have "list_all produced names1"
    using 1 rewrite_tagged_produced [of name _ names body names1] "2.prems"(2,3) by (auto split: rc_mode.splits)
  with "2.IH" [OF 3] "2.prems"(3) show ?case by auto
qed simp

lemma rewrite_names_produced:
  assumes "rewrite source mode = Inr (out, names)"
  shows "list_all produced names"
proof -
  obtain w where "rewrite_bodies source mode (rc_functions source) 0 0 categories0 = Inr (out, w, names)"
    using assms by (auto simp: rewrite_def bindE_Inr_iff Let_def fail_rc_def split: if_splits)
  then show ?thesis
    by (rule rewrite_bodies_produced) (use rc_functions_solid in \<open>auto simp: categories0_def produced_def\<close>)
qed


lemma rewrite_names_solid: "rewrite source mode = Inr (out, names) \<Longrightarrow> list_all solid names"
  using rewrite_names_produced produced_solid by (auto simp: list_all_iff)

section \<open>The categories file\<close>

definition category_rows :: "categories \<Rightarrow> (int, string) dict" where
  "category_rows names = map (\<lambda>(i, name). (int i, name)) (enumerate 0 names)"

lemma solid_word: "w \<noteq> [] \<Longrightarrow> solid w \<Longrightarrow> plain_word w"
  by (simp add: plain_word_def solid_def)

lemma plain_word_no_tab: "plain_word w \<Longrightarrow> tab \<notin> set w"
  by (auto simp: plain_word_def is_space_def)

lemma solid_no_tab: "solid w \<Longrightarrow> tab \<notin> set w"
  by (auto simp: solid_def is_space_def)

lemma solid_no_break: "solid w \<Longrightarrow> c \<in> set w \<Longrightarrow> \<not> is_line_break c"
  by (fastforce simp: solid_def is_space_def is_line_break_def Let_def)

lemma read_category_row:
  "solid name \<Longrightarrow> read_category (show_nat i @ tab # name) d = Inr (dict_put (int i) name d)"
  using plain_word_no_tab [OF show_nat_word [of i]]
  by (simp add: read_category_def split_char_append_sep split_char_no_sep solid_no_tab)

lemma read_category_rows:
  assumes "list_all solid names" and "\<And>i. i < length names \<Longrightarrow> dict_get d (int (k + i)) = None"
  shows "foldE read_category (map (\<lambda>(i, name). show_nat i @ tab # name) (enumerate k names)) d
       = Inr (d @ map (\<lambda>(i, name). (int i, name)) (enumerate k names))"
  using assms
proof (induction names arbitrary: k d)
  case (Cons name names)
  have "dict_get d (int k) = None" using Cons.prems(2) [of 0] by simp
  then have put: "dict_put (int k) name d = d @ [(int k, name)]"
    by (induction d) (auto split: if_splits)
  have "foldE read_category (map (\<lambda>(i, name). show_nat i @ tab # name) (enumerate (Suc k) names)) (d @ [(int k, name)])
      = Inr ((d @ [(int k, name)]) @ map (\<lambda>(i, name). (int i, name)) (enumerate (Suc k) names))"
  proof (rule Cons.IH)
    fix i
    assume "i < length names"
    then show "dict_get (d @ [(int k, name)]) (int (Suc k + i)) = None"
      using Cons.prems(2) [of "Suc i"] by (simp add: map_add_def)
  qed (use Cons.prems in simp)
  with Cons.prems(1) put show ?case by (simp add: read_category_row)
qed simp

lemma splitlines_categories:
  assumes "list_all solid names"
  shows "splitlines (categories_text names) = map (\<lambda>(i, name). show_nat i @ tab # name) (enumerate 0 names)"
proof -
  let ?ls = "map (\<lambda>(i, name). show_nat i @ tab # name) (enumerate 0 names)"
  have "splitlines (concat (map (\<lambda>l. l @ [newline]) ?ls)) = ?ls"
  proof (rule splitlines_concat)
    fix l c
    assume "l \<in> set ?ls" "c \<in> set l"
    then obtain i name where l: "l = show_nat i @ tab # name" and "name \<in> set names"
      by (auto simp: enumerate_eq_zip dest: set_zip_rightD)
    with assms have "solid name" by (simp add: list_all_iff)
    with \<open>c \<in> set l\<close> l plain_word_no_break [OF show_nat_word] solid_no_break show "\<not> is_line_break c"
      by (auto simp: is_line_break_def)
  qed
  moreover have "categories_text names = concat (map (\<lambda>l. l @ [newline]) ?ls)"
    by (simp add: categories_text_def o_def case_prod_beta')
  ultimately show ?thesis by simp
qed

lemma read_categories:
  assumes "list_all solid names"
  shows "foldE read_category (splitlines (categories_text names)) [] = Inr (category_rows names)"
  unfolding splitlines_categories [OF assms] category_rows_def
  using read_category_rows [OF assms, of "[]" 0] by simp

lemma category_rows_get: "dict_get (category_rows names) (int i) = (if i < length names then Some (names ! i) else None)"
proof -
  have "dict_get (map (\<lambda>(i, name). (int i, name)) (enumerate k names)) (int (k + i)) = (if i < length names then Some (names ! i) else None)" for k
  proof (induction names arbitrary: k i)
    case (Cons name names)
    show ?case using Cons [of "Suc k" "i - 1"] by (cases i) auto
  qed simp
  from this [of 0] show ?thesis by (simp add: category_rows_def)
qed

section \<open>Groups of the report\<close>

definition GROUPED_REASONS :: "string list" where
  "GROUPED_REASONS = [''projection'', ''stored'', ''block_end'', ''loop_entry'', ''call'']"

lemma starts_with_append: "starts_with (a @ b) (a @ c) \<longleftrightarrow> starts_with b c"
  by (induction a) auto

lemma starts_with_Cons: "starts_with (a # b) (c # d) \<longleftrightarrow> a = c \<and> starts_with b d"
  by (auto simp: Let_def)

lemma group_of_Inr: "(\<exists>g. group_of c = Inr g) \<longleftrightarrow> (\<exists>(label, pres) \<in> set RC_GROUPS. \<exists>p \<in> set pres. starts_with c p)"
proof -
  have "(\<exists>g. group_of c = Inr g) \<longleftrightarrow> filter (\<lambda>(label, pres). \<exists>p \<in> set pres. starts_with c p) RC_GROUPS \<noteq> []"
    by (auto simp: group_of_def fail_report_def split: list.splits)
  then show ?thesis by (auto simp: filter_empty_conv)
qed

lemma group_prefixes: "(\<exists>(label, pres) \<in> set RC_GROUPS. \<exists>p \<in> set pres. P p) \<longleftrightarrow>
    (\<exists>r \<in> set GROUPED_REASONS. P (''acquire:'' @ r)) \<or>
    (\<exists>p \<in> {''drop:'', ''cascade:'', ''runtime_list:get'', ''runtime_list:'', ''runtime_other'', ''unmarked'', ''untagged''}. P p)"
  by (simp add: RC_GROUPS_def GROUPED_REASONS_def)

lemma acquire_grouped:
  "(\<exists>g. group_of (''acquire:'' @ r) = Inr g) \<longleftrightarrow> (\<exists>x \<in> set GROUPED_REASONS. starts_with r x)"
proof -
  have "\<not> starts_with (''acquire:'' @ r) p"
    if "p \<in> {''drop:'', ''cascade:'', ''runtime_list:get'', ''runtime_list:'', ''runtime_other'', ''unmarked'', ''untagged''}" for p
    using that by auto
  then show ?thesis unfolding group_of_Inr group_prefixes starts_with_append by blast
qed

lemma produced_grouped:
  assumes "produced c" and "\<not> (\<exists>g. group_of c = Inr g)"
  shows "\<exists>r s p. c = acquire_category r s p"
proof (rule ccontr)
  assume no: "\<not> ?thesis"
  have "\<exists>p \<in> {''drop:'', ''cascade:'', ''runtime_list:get'', ''runtime_list:'', ''runtime_other'', ''unmarked'', ''untagged''}. starts_with c p"
    using assms(1) no by (auto simp: produced_def region_category_def drop_category_def)
  with assms(2) show False unfolding group_of_Inr group_prefixes by blast
qed

lemma starts_with_more: "starts_with a x \<Longrightarrow> starts_with (a @ b) x"
  unfolding starts_with_prefix by (rule prefix_prefix)

lemma acquire_category_tail: "\<exists>rest. acquire_category r s p = ''acquire:'' @ r @ rest"
  by (simp add: acquire_category_def)

text \<open>C24: every category that a rewrite lists has a group in the report, except those of acquire markers whose
  reason does not begin with one of the five reasons the report knows; for these the report stops with an
  error that names the category.\<close>

theorem ungrouped_categories:
  assumes "rewrite source mode = Inr (out, names)" and "c \<in> set names" and "group_of c = Inl e"
  shows "e = SystemExit (''error: report: category '' @ c @ '' belongs to no group'')
    \<and> (\<exists>r s p. c = acquire_category r s p \<and> (\<forall>x \<in> set GROUPED_REASONS. \<not> starts_with r x))"
proof -
  have "produced c" using rewrite_names_produced [OF assms(1)] assms(2) by (simp add: list_all_iff)
  moreover have no: "\<not> (\<exists>g. group_of c = Inr g)" using assms(3) by simp
  ultimately obtain r s p where c: "c = acquire_category r s p" using produced_grouped by blast
  obtain rest where "acquire_category r s p = ''acquire:'' @ r @ rest" using acquire_category_tail by blast
  with no c have "\<forall>x \<in> set GROUPED_REASONS. \<not> starts_with (r @ rest) x" using acquire_grouped [of "r @ rest"] by simp
  then have "\<forall>x \<in> set GROUPED_REASONS. \<not> starts_with r x" using starts_with_more by blast
  with c show ?thesis using assms(3) by (auto simp: group_of_def fail_report_def split: list.splits)
qed

theorem ungrouped_categories_witness:
  "group_of ''acquire:before_control:owner'' = Inl (SystemExit
     (''error: report: category '' @ ''acquire:before_control:owner'' @ '' belongs to no group''))"
proof -
  let ?source = "''blorp_f_1(){/*RC:B A before_control owner solo 1*/x/*RC:E*/}''"
  have r: "rewrite ?source Tagged = Inr (''blorp_f_1(){x}'', [''untagged'', ''unmarked'', ''acquire:before_control:owner''])"
    by code_simp
  have "isl (group_of ''acquire:before_control:owner'')" by code_simp
  then obtain e where "group_of ''acquire:before_control:owner'' = Inl e" unfolding isl_def by blast
  with ungrouped_categories [OF r _ this] show ?thesis by simp
qed

lemma acquire_reason_grouped:
  assumes "r \<in> set REASONS \<or> r = ''loop_entry''"
  shows "(\<exists>g. group_of (acquire_category r s p) = Inr g) \<longleftrightarrow> r \<notin> {''other_definition'', ''before_control''}"
proof -
  obtain rest where "acquire_category r s p = ''acquire:'' @ r @ rest" using acquire_category_tail by blast
  moreover have "(\<exists>x \<in> set GROUPED_REASONS. starts_with (r @ rest) x) \<longleftrightarrow> r \<notin> {''other_definition'', ''before_control''}"
    using assms unfolding REASONS_def GROUPED_REASONS_def set_simps insert_iff empty_iff by (elim disjE) simp_all
  ultimately show ?thesis using acquire_grouped [of "r @ rest"] by simp
qed

text \<open>C25: of the reasons the marker functions compute, the report has a group for all but two: an acquisition
  before a definition that is neither a call nor a construction, and one before a join or loop. A program with such an
  acquisition cannot be reported.\<close>

theorem marked_acquisitions_grouped:
  assumes "0 \<le> position"
  shows "(\<exists>g. group_of (acquire_category (rc_reason operations position v) (rc_source_name source) pair) = Inr g)
    \<longleftrightarrow> rc_reason operations position v \<notin> {''other_definition'', ''before_control''}"
  by (rule acquire_reason_grouped) (simp add: reason_in [OF assms])

theorem marked_acquisitions_grouped_witness:
  "rc_reason [AcquireOwner 1 \<lparr>b_value = 5, b_source = OwnerBorrow 3\<rparr>,
      DefineValue \<lparr>d_id = 6, d_operation = PayloadDefinition (), d_rest = ()\<rparr>] 0 5 = ''other_definition''
   \<and> (\<nexists>g. group_of (acquire_category ''other_definition'' (rc_source_name (OwnerBorrow 3)) ''solo'') = Inr g)"
proof -
  let ?ops = "[AcquireOwner 1 \<lparr>b_value = 5, b_source = OwnerBorrow 3\<rparr>,
      DefineValue \<lparr>d_id = 6, d_operation = PayloadDefinition (), d_rest = ()\<rparr>]"
  have r: "rc_reason ?ops 0 5 = ''other_definition''" by code_simp
  from marked_acquisitions_grouped [of 0 ?ops 5 "OwnerBorrow 3" "''solo''"] r show ?thesis by simp
qed

end
