(* ===== verification/RC_Run.thy ===== *)
theory RC_Run
  imports Attribution
begin

text \<open>
  A run of the two instrumented programs of the \<open>rc\<close> stage: the counter arrays that the preludes of
  \<^verbatim>\<open>instrument_rc.py\<close> declare, the increment that wraps every atomic operation, and the two reports written
  at exit. An operation is the tag in force, the kind of data and the direction; a tag is the C \<open>unsigned\<close>
  it is stored in, here a natural number below the number of rows, which fits while there are fewer than
  \<open>2 ^ 25\<close> functions. The counters are \<open>unsigned long\<close>, 64-bit words that wrap around.
\<close>

section \<open>Counters and reports\<close>

type_synonym rc_op = "nat \<times> nat \<times> nat"

definition rc_counts0 :: "nat \<Rightarrow> u64 list list" where
  "rc_counts0 tags = replicate tags (replicate 10 0)"

definition rc_count :: "rc_op \<Rightarrow> u64 list list \<Rightarrow> u64 list list" where
  "rc_count op counts =
     (let (t, k, d) = op in counts[t := (counts ! t)[k * 2 + d := counts ! t ! (k * 2 + d) + 1]])"

definition rc_kind_count :: "nat \<times> nat \<Rightarrow> u64 list \<Rightarrow> u64 list" where
  "rc_kind_count op counts = (let (k, d) = op in counts[k * 2 + d := counts ! (k * 2 + d) + 1])"

definition direction_name :: "nat \<Rightarrow> string" where
  "direction_name d = (if d \<noteq> 0 then ''dec'' else ''inc'')"

definition tagged_fields :: "rc_op \<Rightarrow> u64 \<Rightarrow> string list" where
  "tagged_fields op n =
     (let (t, k, d) = op in
      [KINDS ! k, direction_name d, show_nat (drop_bit CATEGORY_BITS t), show_nat (t AND CATEGORY_MASK), show_u64 n])"

definition rc_cells :: "nat \<Rightarrow> rc_op list" where
  "rc_cells tags = List.product [0..<tags] (List.product [0..<5] [0..<2])"

definition rc_report_tagged :: "u64 list list \<Rightarrow> string" where
  "rc_report_tagged counts =
     concat (map (\<lambda>(t, k, d).
        let n = counts ! t ! (2 * k + d) in
        if n \<noteq> 0 then join [tab] (tagged_fields (t, k, d) n) @ [newline] else []) (rc_cells (length counts)))"

definition kinds_fields :: "u64 list \<Rightarrow> nat \<times> nat \<Rightarrow> string list" where
  "kinds_fields counts op = (let (k, d) = op in [KINDS ! k, direction_name d, show_u64 (counts ! (2 * k + d))])"

definition rc_report_kinds :: "u64 list \<Rightarrow> string" where
  "rc_report_kinds counts =
     concat (map (\<lambda>op. join [tab] (kinds_fields counts op) @ [newline]) (List.product [0..<5] [0..<2]))"

text \<open>The operations of a run in turn.\<close>

definition tagged_run :: "nat \<Rightarrow> rc_op list \<Rightarrow> u64 list list" where
  "tagged_run tags ops = fold rc_count ops (rc_counts0 tags)"

definition kinds_run :: "(nat \<times> nat) list \<Rightarrow> u64 list" where
  "kinds_run ops = fold rc_kind_count ops (replicate 10 0)"

section \<open>What the counters hold\<close>

definition shape :: "u64 list list \<Rightarrow> bool" where
  "shape counts \<longleftrightarrow> (\<forall>row \<in> set counts. length row = 10)"

lemma shape_count: "shape counts \<Longrightarrow> shape (rc_count op counts)"
proof (cases op)
  case (fields t k d)
  assume "shape counts"
  then have "length ((rc_count op counts) ! i) = 10" if "i < length counts" for i
    using that by (cases "i = t") (simp_all add: shape_def rc_count_def fields)
  moreover have "length (rc_count op counts) = length counts" by (simp add: rc_count_def fields)
  ultimately show ?thesis by (auto simp: shape_def in_set_conv_nth)
qed

lemma column_inj: "d < 2 \<Longrightarrow> d' < 2 \<Longrightarrow> k * 2 + d = k' * 2 + d' \<longleftrightarrow> k = k' \<and> d = (d' :: nat)"
  by presburger

lemma count_entry:
  assumes "shape counts" and "t < length counts" and "k < 5" and "d < 2" and "t' < length counts" and "k' < 5" and "d' < 2"
  shows "rc_count (t', k', d') counts ! t ! (k * 2 + d) =
    counts ! t ! (k * 2 + d) + (if (t', k', d') = (t, k, d) then 1 else 0)"
proof -
  have "length (counts ! t) = 10" using assms(1,2) by (simp add: shape_def)
  moreover have "k * 2 + d < 10" using assms(3,4) by linarith
  ultimately show ?thesis
    using assms column_inj [of d d' k k'] by (auto simp: rc_count_def nth_list_update)
qed

lemma run_entry:
  assumes "shape counts" and "t < length counts" and "k < 5" and "d < 2"
    and "\<forall>(t', k', d') \<in> set ops. t' < length counts \<and> k' < 5 \<and> d' < 2"
  shows "fold rc_count ops counts ! t ! (k * 2 + d) = counts ! t ! (k * 2 + d) + of_nat (count_list ops (t, k, d))"
  using assms
proof (induction ops arbitrary: counts)
  case (Cons op ops)
  obtain t' k' d' where op: "op = (t', k', d')" by (cases op)
  have len: "length (rc_count op counts) = length counts" by (simp add: rc_count_def op)
  have "fold rc_count ops (rc_count op counts) ! t ! (k * 2 + d)
      = rc_count op counts ! t ! (k * 2 + d) + of_nat (count_list ops (t, k, d))"
    using Cons.prems by (intro Cons.IH shape_count) (auto simp: len)
  moreover have "rc_count op counts ! t ! (k * 2 + d) =
      counts ! t ! (k * 2 + d) + (if op = (t, k, d) then 1 else 0)"
    using Cons.prems unfolding op by (intro count_entry) auto
  ultimately show ?case by (simp add: add.assoc)
qed simp

lemma tagged_run_length: "length (tagged_run tags ops) = tags"
proof -
  have "length (fold rc_count ops counts) = length counts" for counts
    by (induction ops arbitrary: counts) (auto simp: rc_count_def split: prod.splits)
  then show ?thesis by (simp add: tagged_run_def rc_counts0_def)
qed

lemma in_rc_cells: "(t, k, d) \<in> set (rc_cells tags) \<longleftrightarrow> t < tags \<and> k < 5 \<and> d < 2"
  by (auto simp: rc_cells_def)

lemma tagged_run_entry:
  assumes "set ops \<subseteq> set (rc_cells tags)" and "length ops < 2 ^ 64" and "(t, k, d) \<in> set (rc_cells tags)"
  shows "uint (tagged_run tags ops ! t ! (2 * k + d)) = int (count_list ops (t, k, d))"
proof -
  have b: "t < tags" "k < 5" "d < 2" using assms(3) by (simp_all add: in_rc_cells)
  have z: "rc_counts0 tags ! t ! (k * 2 + d) = 0" using b by (simp add: rc_counts0_def)
  have "tagged_run tags ops ! t ! (k * 2 + d) = rc_counts0 tags ! t ! (k * 2 + d) + of_nat (count_list ops (t, k, d))"
    unfolding tagged_run_def using assms(1) b
    by (intro run_entry) (auto simp: rc_counts0_def shape_def in_rc_cells)
  moreover have "count_list ops (t, k, d) < 2 ^ 64" using count_le_length [of ops "(t, k, d)"] assms(2) by linarith
  ultimately show ?thesis
    by (simp add: z mult.commute unsigned_of_nat take_bit_nat_eq_self)
qed

lemma kinds_run_entry:
  assumes "set ops \<subseteq> set (List.product [0..<5] [0..<2])" and "length ops < 2 ^ 64" and "k < 5" and "d < 2"
  shows "uint (kinds_run ops ! (2 * k + d)) = int (count_list ops (k, d))"
proof -
  have "fold rc_kind_count ops counts ! (k * 2 + d) = counts ! (k * 2 + d) + of_nat (count_list ops (k, d))"
    if "length counts = 10" for counts :: "u64 list"
    using assms(1) that
  proof (induction ops arbitrary: counts)
    case (Cons op ops)
    obtain k' d' where op: "op = (k', d')" by (cases op)
    have len: "length (rc_kind_count op counts) = 10" using Cons.prems by (simp add: rc_kind_count_def op)
    have "k * 2 + d < 10" "d' < 2" using assms(3,4) Cons.prems by (auto simp: op)
    then have "rc_kind_count op counts ! (k * 2 + d) = counts ! (k * 2 + d) + (if op = (k, d) then 1 else 0)"
      using Cons.prems column_inj [OF assms(4) \<open>d' < 2\<close>, of k k'] by (auto simp: rc_kind_count_def op nth_list_update)
    then show ?case using Cons.IH [OF _ len] Cons.prems by (simp add: add.assoc)
  qed simp
  from this [of "replicate 10 0"] have "kinds_run ops ! (k * 2 + d) = of_nat (count_list ops (k, d))"
    using assms(3,4) by (simp add: kinds_run_def)
  moreover have "count_list ops (k, d) < 2 ^ 64" using count_le_length [of ops "(k, d)"] assms(2) by linarith
  ultimately show ?thesis by (simp add: mult.commute unsigned_of_nat take_bit_nat_eq_self)
qed

section \<open>What the report reads\<close>

definition op_key :: "categories \<Rightarrow> rc_op \<Rightarrow> tag_key" where
  "op_key names op =
     (let (t, k, d) = op in (KINDS ! k, direction_name d, int (drop_bit CATEGORY_BITS t), names ! (t AND CATEGORY_MASK)))"

lemma kinds_word: "k < 5 \<Longrightarrow> plain_word (KINDS ! k)"
  by (auto simp: KINDS_def plain_word_def is_space_def nth_Cons split: nat.splits)

lemma direction_word: "plain_word (direction_name d)"
  by (simp add: direction_name_def plain_word_def is_space_def)

lemma tagged_fields_words: "k < 5 \<Longrightarrow> \<forall>w \<in> set (tagged_fields (t, k, d) n). plain_word w"
  by (simp add: tagged_fields_def show_u64_def show_nat_word kinds_word direction_word)

lemma kinds_fields_words: "k < 5 \<Longrightarrow> \<forall>w \<in> set (kinds_fields counts (k, d)). plain_word w"
  by (simp add: kinds_fields_def show_u64_def show_nat_word kinds_word direction_word)

lemma split_tab_words: "ws \<noteq> [] \<Longrightarrow> \<forall>w \<in> set ws. plain_word w \<Longrightarrow> split_char tab (join [tab] ws) = ws"
  using plain_word_no_tab by (intro split_char_join) auto

lemma read_tagged_row:
  assumes "k < 5" and "t AND CATEGORY_MASK < length names"
  shows "read_tagged (category_rows names) (join [tab] (tagged_fields (t, k, d) n)) m
       = Inr (add_count (op_key names (t, k, d)) (uint n) m)"
proof -
  have "split_char tab (join [tab] (tagged_fields (t, k, d) n)) = tagged_fields (t, k, d) n"
    by (rule split_tab_words [OF _ tagged_fields_words [OF assms(1)]]) (simp add: tagged_fields_def)
  then show ?thesis
    using assms(2)
    by (simp add: read_tagged_def tagged_fields_def read_u64 dict_index_def category_rows_get op_key_def add_count_def
        get_default_def Let_def del: join.simps)
qed

lemma read_tagged_rows:
  assumes "\<And>t k d. (t, k, d) \<in> set cells \<Longrightarrow> k < 5 \<and> t AND CATEGORY_MASK < length names"
  shows "foldE (read_tagged (category_rows names)) (map (\<lambda>op. join [tab] (tagged_fields op (n op))) cells) m
       = Inr (fold (\<lambda>op. add_count (op_key names op) (uint (n op))) cells m)"
  using assms
proof (induction cells arbitrary: m)
  case (Cons op cells)
  obtain t k d where op: "op = (t, k, d)" by (cases op)
  have "read_tagged (category_rows names) (join [tab] (tagged_fields op (n op))) m
      = Inr (add_count (op_key names op) (uint (n op)) m)"
    unfolding op using Cons.prems [of t k d] by (intro read_tagged_row) (simp_all add: op)
  moreover have "foldE (read_tagged (category_rows names)) (map (\<lambda>op. join [tab] (tagged_fields op (n op))) cells) m'
      = Inr (fold (\<lambda>op. add_count (op_key names op) (uint (n op))) cells m')" for m'
    using Cons.prems [OF list.set_intros(2)] by (rule Cons.IH)
  ultimately show ?case by simp
qed simp

lemma concat_map_if: "concat (map (\<lambda>x. if P x then f x else []) xs) = concat (map f (filter P xs))"
  by (induction xs) auto

definition cell_of :: "u64 list list \<Rightarrow> rc_op \<Rightarrow> u64" where
  "cell_of counts op = (let (t, k, d) = op in counts ! t ! (2 * k + d))"

lemma rc_report_tagged_rows:
  "rc_report_tagged counts =
     concat (map (\<lambda>op. join [tab] (tagged_fields op (cell_of counts op)) @ [newline])
       (filter (\<lambda>op. cell_of counts op \<noteq> 0) (rc_cells (length counts))))"
proof -
  have "rc_report_tagged counts = concat (map (\<lambda>op. if cell_of counts op \<noteq> 0
      then join [tab] (tagged_fields op (cell_of counts op)) @ [newline] else []) (rc_cells (length counts)))"
    unfolding rc_report_tagged_def
    by (intro arg_cong [where f = concat] map_cong refl) (auto simp: cell_of_def Let_def simp del: join.simps)
  then show ?thesis by (simp only: concat_map_if)
qed

lemma read_tagged_report:
  assumes "\<And>t k d. (t, k, d) \<in> set (rc_cells (length counts)) \<Longrightarrow> cell_of counts (t, k, d) \<noteq> 0 \<Longrightarrow> t AND CATEGORY_MASK < length names"
  shows "foldE (read_tagged (category_rows names)) (splitlines (rc_report_tagged counts)) []
       = Inr (counted (map (\<lambda>op. (op_key names op, uint (cell_of counts op)))
           (filter (\<lambda>op. cell_of counts op \<noteq> 0) (rc_cells (length counts)))))"
proof -
  let ?cells = "filter (\<lambda>op. cell_of counts op \<noteq> 0) (rc_cells (length counts))"
  have ok: "k < 5 \<and> t AND CATEGORY_MASK < length names" if "(t, k, d) \<in> set ?cells" for t k d
    using that assms [of t k d] by (simp add: in_rc_cells)
  have "splitlines (rc_report_tagged counts) = map (\<lambda>op. join [tab] (tagged_fields op (cell_of counts op))) ?cells"
    unfolding rc_report_tagged_rows
  proof (rule splitlines_words)
    fix op
    assume op: "op \<in> set ?cells"
    obtain t k d where "op = (t, k, d)" by (cases op)
    with ok [of t k d] op show "\<forall>w \<in> set (tagged_fields op (cell_of counts op)). plain_word w"
      using tagged_fields_words [of k t d] by blast
  qed
  then show ?thesis
    using read_tagged_rows [of ?cells names "cell_of counts" "[]", OF ok]
    by (simp add: counted_fold fold_map o_def del: join.simps)
qed

section \<open>Sums over a run\<close>

lemma sum_over_cells:
  assumes "distinct cells" and "set ops \<subseteq> set cells"
  shows "sum_list (map (\<lambda>c. int (count_list ops c)) (filter P cells)) = int (length (filter P ops))"
proof -
  have "sum_list (map (\<lambda>c. sum_list (map (\<lambda>_. 1) (filter (\<lambda>x. x = c) (filter P ops)))) (filter P cells))
      = sum_list (map (\<lambda>_. 1 :: int) (filter P ops))"
    using assms by (intro sum_by_class) auto
  moreover have "sum_list (map (\<lambda>_. 1) (filter (\<lambda>x. x = c) (filter P ops))) = int (count_list ops c)" if "P c" for c
  proof -
    have "filter (\<lambda>x. x = c) (filter P ops) = filter (\<lambda>x. x = c) ops"
      unfolding filter_filter using that by (intro filter_cong) auto
    moreover have "count_list ops c = length (filter (\<lambda>x. x = c) ops)"
      unfolding count_list_eq_length_filter by (metis (no_types))
    ultimately show ?thesis by (simp only: sum_list_triv mult_1_right of_nat_eq_iff)
  qed
  then have "map (\<lambda>c. sum_list (map (\<lambda>_. 1) (filter (\<lambda>x. x = c) (filter P ops)))) (filter P cells)
      = map (\<lambda>c. int (count_list ops c)) (filter P cells)"
    by (intro map_cong refl) (simp only: set_filter mem_Collect_eq)
  ultimately show ?thesis by (simp only: sum_list_triv mult_1_right)
qed

lemma sum_nonzero: "sum_list (map f (filter P (filter (\<lambda>x. f x \<noteq> 0) xs))) = sum_list (map f (filter P xs))"
  for f :: "'a \<Rightarrow> int"
  by (induction xs) auto

section \<open>The tables after a run\<close>

definition run_table :: "categories \<Rightarrow> nat \<Rightarrow> rc_op list \<Rightarrow> tagged" where
  "run_table names tags ops =
     counted (map (\<lambda>op. (op_key names op, uint (cell_of (tagged_run tags ops) op)))
       (filter (\<lambda>op. cell_of (tagged_run tags ops) op \<noteq> 0) (rc_cells tags)))"

lemma run_table_sum:
  assumes "set ops \<subseteq> set (rc_cells tags)" and "length ops < 2 ^ 64"
  shows "sum_list (map snd (filter (\<lambda>kv. Q (fst kv)) (run_table names tags ops)))
       = int (length (filter (\<lambda>op. Q (op_key names op)) ops))"
proof -
  let ?cell = "\<lambda>op. uint (cell_of (tagged_run tags ops) op)"
  let ?P = "\<lambda>op. Q (op_key names op)"
  have nz: "(cell_of (tagged_run tags ops) op \<noteq> 0) = (?cell op \<noteq> 0)" for op by (simp add: uint_0_iff)
  have "sum_list (map snd (filter (\<lambda>kv. Q (fst kv)) (run_table names tags ops)))
      = sum_list (map ?cell (filter ?P (filter (\<lambda>op. ?cell op \<noteq> 0) (rc_cells tags))))"
    unfolding run_table_def counted_filter nz filter_map map_map o_def by simp
  also have "\<dots> = sum_list (map ?cell (filter ?P (rc_cells tags)))" by (rule sum_nonzero)
  also have "map ?cell (filter ?P (rc_cells tags)) = map (\<lambda>c. int (count_list ops c)) (filter ?P (rc_cells tags))"
    by (rule map_cong) (use tagged_run_entry [OF assms] in \<open>auto simp: cell_of_def\<close>)
  also have "sum_list \<dots> = int (length (filter ?P ops))"
    using assms(1) by (intro sum_over_cells) (simp_all add: rc_cells_def distinct_product)
  finally show ?thesis .
qed

definition kinds_table :: "u64 list \<Rightarrow> kinds" where
  "kinds_table counts = fold (\<lambda>(k, d). dict_put (KINDS ! k, direction_name d) (uint (counts ! (2 * k + d))))
     (List.product [0..<5] [0..<2]) []"

lemma read_kind_row:
  "k < 5 \<Longrightarrow> read_kind (join [tab] (kinds_fields counts (k, d))) m
     = Inr (dict_put (KINDS ! k, direction_name d) (uint (counts ! (2 * k + d))) m)"
proof -
  assume k: "k < 5"
  have "split_char tab (join [tab] (kinds_fields counts (k, d))) = kinds_fields counts (k, d)"
    by (rule split_tab_words [OF _ kinds_fields_words [OF k]]) (simp add: kinds_fields_def)
  then show ?thesis by (simp add: read_kind_def kinds_fields_def read_u64 del: join.simps)
qed

lemma read_kinds_report:
  "foldE read_kind (splitlines (rc_report_kinds counts)) [] = Inr (kinds_table counts)"
proof -
  let ?cells = "List.product [0..<5] [0..<2]"
  have "foldE read_kind (map (\<lambda>op. join [tab] (kinds_fields counts op)) cells) m
      = Inr (fold (\<lambda>(k, d). dict_put (KINDS ! k, direction_name d) (uint (counts ! (2 * k + d)))) cells m)"
    if "set cells \<subseteq> set ?cells" for cells m
    using that
  proof (induction cells arbitrary: m)
    case (Cons op cells)
    obtain k d where op: "op = (k, d)" by (cases op)
    with Cons.prems have "k < 5" by auto
    from read_kind_row [OF this] Cons show ?case by (simp add: op)
  qed simp
  moreover have "splitlines (rc_report_kinds counts) = map (\<lambda>op. join [tab] (kinds_fields counts op)) ?cells"
    unfolding rc_report_kinds_def by (rule splitlines_words) (use kinds_fields_words in auto)
  ultimately show ?thesis by (simp add: kinds_table_def del: join.simps)
qed

lemma kinds_table_get:
  assumes "k < 5" and "d < 2"
  shows "dict_get (kinds_table counts) (KINDS ! k, direction_name d) = Some (uint (counts ! (2 * k + d)))"
proof -
  let ?key = "\<lambda>(k, d). (KINDS ! k, direction_name d)"
  let ?rows = "map (\<lambda>x. (?key x, uint (counts ! (2 * fst x + snd x)))) (List.product [0..<5] [0..<2])"
  have "distinct (map ?key (List.product [0..<5] [0..<2]))" by code_simp
  then have "distinct (map fst (rev ?rows))" by (simp add: rev_map [symmetric] o_def case_prod_beta')
  moreover have "(?key (k, d), uint (counts ! (2 * k + d))) \<in> set (rev ?rows)" using assms by force
  ultimately have "map_of (rev ?rows) (?key (k, d)) = Some (uint (counts ! (2 * k + d)))" by (rule map_of_is_SomeI)
  moreover have "dict_get (kinds_table counts) = map_of (rev ?rows)"
    using fold_put_lookup [of ?key "\<lambda>x. uint (counts ! (2 * fst x + snd x))" "List.product [0..<5] [0..<2]" "[]"]
    by (simp add: kinds_table_def case_prod_beta')
  ultimately show ?thesis by simp
qed


section \<open>The whole stage\<close>

lemma categories_no_cr: "list_all solid names \<Longrightarrow> universal_newlines (categories_text names) = categories_text names"
proof (rule universal_newlines_id)
  assume a: "list_all solid names"
  have "CHR 0x0D \<notin> set (show_nat i)" for i
    using plain_word_no_break [OF show_nat_word, of "CHR 0x0D" i] by (auto simp: is_line_break_def)
  moreover have "CHR 0x0D \<notin> set name" if "name \<in> set names" for name
    using solid_no_break [of name "CHR 0x0D"] a that by (auto simp: list_all_iff is_line_break_def)
  ultimately show "CHR 0x0D \<notin> set (categories_text names)"
    by (auto simp: categories_text_def enumerate_eq_zip dest: set_zip_rightD)
qed

lemma kinds_are_all: "kd \<in> set all_kinds \<Longrightarrow> \<exists>k < 5. kd = KINDS ! k"
proof -
  have "all_kinds = KINDS" by (simp add: all_kinds_def RC_KINDS_def KINDS_def)
  moreover have "length KINDS = 5" by (simp add: KINDS_def)
  moreover assume "kd \<in> set all_kinds"
  ultimately show ?thesis by (metis in_set_conv_nth)
qed

lemma op_kind_column:
  assumes "(t, k, d) \<in> set (rc_cells tags)" and "k' < 5" and "d' < 2"
  shows "KINDS ! k = KINDS ! k' \<and> direction_name d = direction_name d' \<longleftrightarrow> (k, d) = (k', d')"
proof -
  have "distinct KINDS" "length KINDS = 5" by (simp_all add: KINDS_def)
  then show ?thesis using assms by (auto simp: in_rc_cells nth_eq_iff_index_eq direction_name_def split: if_splits)
qed

lemma run_summed:
  assumes "set ops \<subseteq> set (rc_cells tags)" and "length ops < 2 ^ 64" and "k < 5" and "d < 2"
  shows "summed (run_table names tags ops) (KINDS ! k) (direction_name d) = int (count_list (map snd ops) (k, d))"
proof -
  let ?Q = "\<lambda>(a, b, f, c). a = KINDS ! k \<and> b = direction_name d"
  have "summed (run_table names tags ops) (KINDS ! k) (direction_name d)
      = sum_list (map snd (filter (\<lambda>kv. ?Q (fst kv)) (run_table names tags ops)))"
    by (simp add: summed_def case_prod_beta')
  also have "\<dots> = int (length (filter (\<lambda>op. ?Q (op_key names op)) ops))" by (rule run_table_sum [OF assms(1,2)])
  also have "filter (\<lambda>op. ?Q (op_key names op)) ops = filter (\<lambda>op. (k, d) = snd op) ops"
  proof (rule filter_cong [OF refl])
    fix op
    assume "op \<in> set ops"
    moreover obtain t k' d' where op: "op = (t, k', d')" by (cases op)
    ultimately show "?Q (op_key names op) = ((k, d) = snd op)"
      using op_kind_column [of t k' d' tags k d] assms by (auto simp: op_key_def)
  qed
  also have "int (length \<dots>) = int (count_list (map snd ops) (k, d))"
    by (simp add: count_list_eq_length_filter filter_map o_def)
  finally show ?thesis .
qed

lemma run_agrees:
  assumes "set ops \<subseteq> set (rc_cells tags)" and "length ops < 2 ^ 64"
  shows "mismatches (run_table names tags ops) (kinds_table (kinds_run (map snd ops))) = Inr []"
  unfolding mismatches_none
proof (intro ballI)
  fix kd direction
  assume "kd \<in> set all_kinds" "direction \<in> {''inc'', ''dec''}"
  moreover from this obtain k where "k < 5" "kd = KINDS ! k" using kinds_are_all by blast
  moreover obtain d :: nat where "d < 2" "direction = direction_name d"
    using \<open>direction \<in> {''inc'', ''dec''}\<close> that [of 0] that [of 1] by (auto simp: direction_name_def)
  ultimately have eqs: "k < 5" "kd = KINDS ! k" "d < 2" "direction = direction_name d" by simp_all
  have "set (map snd ops) \<subseteq> set (List.product [0..<5] [0..<2])" using assms(1) by (auto simp: rc_cells_def)
  then show "dict_get (kinds_table (kinds_run (map snd ops))) (kd, direction) = Some (summed (run_table names tags ops) kd direction)"
    using assms eqs run_summed [OF assms eqs(1,3)] kinds_table_get [OF eqs(1,3)] kinds_run_entry [of "map snd ops" k d] by simp
qed


lemma read_rc_run:
  assumes "list_all solid names" and "set ops \<subseteq> set (rc_cells tags)" and "length ops < 2 ^ 64"
    and "\<And>t k d. (t, k, d) \<in> set ops \<Longrightarrow> t AND CATEGORY_MASK < length names"
    and "fs (stage_file directory ''rc'' ''categories.tsv'') = Inr (categories_text names)"
    and "fs (stage_file directory ''rc'' ''tagged.tsv'') = Inr (rc_report_tagged (tagged_run tags ops))"
    and "fs (stage_file directory ''rc'' ''kinds.tsv'') = Inr (rc_report_kinds kind_counts)"
  shows "read_rc fs directory = Inr (run_table names tags ops, kinds_table kind_counts)"
proof -
  let ?counts = "tagged_run tags ops"
  have known: "t AND CATEGORY_MASK < length names"
    if "(t, k, d) \<in> set (rc_cells (length ?counts))" "cell_of ?counts (t, k, d) \<noteq> 0" for t k d
  proof -
    from that(1) have "uint (cell_of ?counts (t, k, d)) = int (count_list ops (t, k, d))"
      using tagged_run_entry [OF assms(2,3)] by (simp add: cell_of_def tagged_run_length)
    moreover have "uint (cell_of ?counts (t, k, d)) \<noteq> 0" using that(2) by (simp only: uint_0_iff not_False_eq_True)
    ultimately have "count_list ops (t, k, d) \<noteq> 0" by linarith
    then have "(t, k, d) \<in> set ops" by (simp only: count_list_0_iff not_not)
    then show ?thesis by (rule assms(4))
  qed
  have "universal_newlines (rc_report_tagged ?counts) = rc_report_tagged ?counts"
    unfolding rc_report_tagged_rows
  proof (rule no_cr_words)
    fix op
    assume op: "op \<in> set (filter (\<lambda>op. cell_of ?counts op \<noteq> 0) (rc_cells (length ?counts)))"
    obtain t k d where "op = (t, k, d)" by (cases op)
    with op show "\<forall>w \<in> set (tagged_fields op (cell_of ?counts op)). plain_word w"
      using tagged_fields_words [of k t d] by (simp add: in_rc_cells)
  qed
  moreover have "universal_newlines (rc_report_kinds kind_counts) = rc_report_kinds kind_counts"
    unfolding rc_report_kinds_def by (rule no_cr_words) (use kinds_fields_words in auto)
  ultimately show ?thesis
    using read_tagged_report [of ?counts names, OF known] read_kinds_report [of kind_counts] assms(5-7)
    by (simp add: read_rc_def read_def read_file_def categories_no_cr [OF assms(1)] read_categories [OF assms(1)]
        run_table_def tagged_run_length)
qed

lemma run_table_entry:
  assumes "set ops \<subseteq> set (rc_cells tags)" and "length ops < 2 ^ 64"
  shows "get_default 0 (run_table names tags ops) key = int (length (filter (\<lambda>op. op_key names op = key) ops))"
proof -
  let ?rows = "map (\<lambda>op. (op_key names op, uint (cell_of (tagged_run tags ops) op)))
       (filter (\<lambda>op. cell_of (tagged_run tags ops) op \<noteq> 0) (rc_cells tags))"
  have "get_default 0 (run_table names tags ops) key = sum_list (map snd (filter (\<lambda>x. fst x = key) ?rows))"
    unfolding run_table_def by (rule counted_entry)
  also have "\<dots> = sum_list (map snd (filter (\<lambda>kv. fst kv = key) (run_table names tags ops)))"
    unfolding run_table_def by (rule counted_filter [of "\<lambda>x. x = key", symmetric])
  also have "\<dots> = int (length (filter (\<lambda>op. op_key names op = key) ops))"
    by (rule run_table_sum [OF assms, of "\<lambda>x. x = key"])
  finally show ?thesis .
qed

text \<open>C1: the whole \<open>rc\<close> stage. The tagged and the kinds program are run on the same operations, each under a
  tag of the counter array whose category the instrumenter listed, fewer than \<open>2 ^ 64\<close> of them; the report then reads
  the three files without error, its verdict is that the counts agree, the count it has under a kind, a direction, a
  function and a category is the number of operations that were performed with them, and no operation is missing
  from its sum.\<close>

theorem rc_stage_counts:
  assumes "rewrite source Tagged = Inr (out, names)" and "tags = tag_limit (function_limit source)"
    and "set ops \<subseteq> set (rc_cells tags)" and "length ops < 2 ^ 64"
    and "list_all (\<lambda>(t, k, d). t AND CATEGORY_MASK < length names) ops"
    and "fs (stage_file directory ''rc'' ''categories.tsv'') = Inr (categories_text names)"
    and "fs (stage_file directory ''rc'' ''tagged.tsv'') = Inr (rc_report_tagged (tagged_run tags ops))"
    and "fs (stage_file directory ''rc'' ''kinds.tsv'') = Inr (rc_report_kinds (kinds_run (map snd ops)))"
  shows "\<exists>tagged kinds. read_rc fs directory = Inr (tagged, kinds) \<and> mismatches tagged kinds = Inr []
    \<and> get_default 0 tagged key = int (length (filter (\<lambda>op. op_key names op = key) ops))
    \<and> total_of tagged = int (length ops)"
proof (intro exI conjI)
  show "read_rc fs directory = Inr (run_table names tags ops, kinds_table (kinds_run (map snd ops)))"
    using assms(5) by (intro read_rc_run [OF rewrite_names_solid [OF assms(1)] assms(3,4) _ assms(6-8)]) (auto simp: list_all_iff)
  show "total_of (run_table names tags ops) = int (length ops)"
    using run_table_sum [OF assms(3,4), of "\<lambda>_. True" names] by simp
qed (rule run_agrees [OF assms(3,4)] run_table_entry [OF assms(3,4)])+

theorem rc_stage_counts_witness:
  "\<exists>fs tagged kinds. read_rc fs ''d'' = Inr (tagged, kinds) \<and> mismatches tagged kinds = Inr []
    \<and> get_default 0 tagged (''string'', ''inc'', 0, ''runtime_other'') = 2"
proof -
  let ?names = "[''untagged'', ''runtime_other'']"
  let ?source = "''f(){blorp_string_retain(x);}''"
  let ?ops = "[(1, 3, 0), (0, 3, 1), (1, 3, 0)] :: rc_op list"
  let ?tags = "tag_limit (function_limit ?source)"
  define fs :: files where "fs = (\<lambda>path.
    if path = ''d/rc/categories.tsv'' then Inr (categories_text ?names)
    else if path = ''d/rc/tagged.tsv'' then Inr (rc_report_tagged (tagged_run ?tags ?ops))
    else Inr (rc_report_kinds (kinds_run (map snd ?ops))))"
  have r: "rewrite ?source Tagged
     = Inr (''f(){(blorp_rc_tag=(blorp_rc_tag&~127u)|1u,blorp_string_retain)(x);}'', ?names)" by code_simp
  have t: "?tags = 128" by code_simp
  have p: "stage_file ''d'' ''rc'' ''categories.tsv'' = ''d/rc/categories.tsv''"
    "stage_file ''d'' ''rc'' ''tagged.tsv'' = ''d/rc/tagged.tsv''"
    "stage_file ''d'' ''rc'' ''kinds.tsv'' = ''d/rc/kinds.tsv''" by code_simp+
  have c: "list_all (\<lambda>(t, k, d). t AND CATEGORY_MASK < length ?names) ?ops" by code_simp
  have k: "length (filter (\<lambda>op. op_key ?names op = (''string'', ''inc'', 0, ''runtime_other'')) ?ops) = 2" by code_simp
  have "\<exists>tagged kinds. read_rc fs ''d'' = Inr (tagged, kinds) \<and> mismatches tagged kinds = Inr []
    \<and> get_default 0 tagged (''string'', ''inc'', 0, ''runtime_other'')
        = int (length (filter (\<lambda>op. op_key ?names op = (''string'', ''inc'', 0, ''runtime_other'')) ?ops))
    \<and> total_of tagged = int (length ?ops)"
    by (rule rc_stage_counts [OF r refl _ _ c]) (simp_all add: fs_def p in_rc_cells t)
  then show ?thesis unfolding k by auto
qed

end
