(* ===== verification/Pairs.thy ===== *)
theory Pairs
  imports RC_Run
begin

text \<open>
  The acquire-then-drop pairs of the report: what the rows of move candidates count, and which marked
  acquisitions they leave out.
\<close>

section \<open>Move candidates\<close>

text \<open>A tagged row is a move candidate with a reason.\<close>

definition candidate :: "string \<Rightarrow> tag_key \<Rightarrow> bool" where
  "candidate reason key =
     (let (k, direction, f, category) = key in
      direction = ''inc'' \<and> starts_with category (''acquire:'' @ reason @ '':'') \<and> ends_with category ''+pair''
      \<or> direction = ''dec'' \<and> ends_with category (''+pair:'' @ reason))"

definition candidate_rows :: "tagged \<Rightarrow> string \<Rightarrow> ((string \<times> string) \<times> int) list" where
  "candidate_rows tagged reason =
     map (\<lambda>((k, direction, f, category), c). ((k, direction), c)) (filter (\<lambda>(key, c). candidate reason key) tagged)"

lemma candidate_piece:
  "(if direction = ''inc'' \<and> A then [((k, ''inc''), c)] else []) @ (if direction = ''dec'' \<and> B then [((k, ''dec''), c)] else [])
   = (if direction = ''inc'' \<and> A \<or> direction = ''dec'' \<and> B then [((k, direction), c)] else [])"
  by auto

lemma reason_pairs_rows: "reason_pairs tagged reason = counted (candidate_rows tagged reason)"
proof -
  have "reason_pairs tagged reason = counted (concat (map (\<lambda>x. if candidate reason (fst x)
      then [case x of ((k, direction, f, category), c) \<Rightarrow> ((k, direction), c)] else []) tagged))"
    unfolding reason_pairs_def candidate_piece
    by (intro arg_cong [where f = counted] arg_cong [where f = concat] map_cong refl)
       (simp add: candidate_def conj_assoc split: prod.splits)
  then show ?thesis by (simp only: concat_map_if candidate_rows_def case_prod_beta' concat_map_singleton)
qed

lemma candidate_reason:
  assumes "candidate r key" and "candidate r' key" and "r \<in> set PAIR_REASONS" and "r' \<in> set PAIR_REASONS"
  shows "r = r'"
proof -
  obtain k direction f category where key: "key = (k, direction, f, category)" by (cases key)
  from assms(1,2) consider
      "prefix (''acquire:'' @ r @ '':'') category" "prefix (''acquire:'' @ r' @ '':'') category"
    | "suffix (''+pair:'' @ r) category" "suffix (''+pair:'' @ r') category"
    unfolding candidate_def key starts_with_prefix ends_with_suffix by auto
  then have "prefix (''acquire:'' @ r @ '':'') (''acquire:'' @ r' @ '':'') \<or> prefix (''acquire:'' @ r' @ '':'') (''acquire:'' @ r @ '':'')
     \<or> suffix (''+pair:'' @ r) (''+pair:'' @ r') \<or> suffix (''+pair:'' @ r') (''+pair:'' @ r)"
    using prefix_same_cases suffix_same_cases by cases blast+
  moreover have "\<forall>r \<in> set PAIR_REASONS. \<forall>r' \<in> set PAIR_REASONS. r \<noteq> r' \<longrightarrow>
      \<not> prefix (''acquire:'' @ r @ '':'') (''acquire:'' @ r' @ '':'') \<and> \<not> suffix (''+pair:'' @ r) (''+pair:'' @ r')"
    unfolding starts_with_prefix [symmetric] ends_with_suffix [symmetric] by code_simp
  ultimately show ?thesis using assms(3,4) by metis
qed

lemma sum_reasons:
  assumes "distinct rs" and "\<And>r r'. r \<in> set rs \<Longrightarrow> r' \<in> set rs \<Longrightarrow> P r x \<Longrightarrow> P r' x \<Longrightarrow> r = r'"
  shows "sum_list (map (\<lambda>r. if P r x then (n :: int) else 0) rs) = (if \<exists>r \<in> set rs. P r x then n else 0)"
proof (cases "\<exists>r \<in> set rs. P r x")
  case True
  then obtain r where r: "r \<in> set rs" "P r x" by blast
  then have "sum_list (map (\<lambda>r. if P r x then n else 0) rs) = sum_list (map (\<lambda>r'. if r' = r then n else 0) rs)"
    using assms(2) by (intro arg_cong [where f = sum_list] map_cong refl) auto
  also have "\<dots> = n" using assms(1) r(1) by (subst sum_list_distinct_conv_sum_set) auto
  finally show ?thesis using True by simp
next
  case False
  then show ?thesis by (induction rs) auto
qed

lemma sum_filter_if: "sum_list (map f (filter P xs)) = sum_list (map (\<lambda>x. if P x then f x else 0) xs)" for f :: "'a \<Rightarrow> int"
  by (induction xs) auto

lemma sum_filter_concat: "sum_list (map f (filter P (concat (map g rs)))) = sum_list (map (\<lambda>r. sum_list (map f (filter P (g r)))) rs)"
  for f :: "'a \<Rightarrow> int"
  by (induction rs) auto

lemma sum_swap: "sum_list (map (\<lambda>r. sum_list (map (f r) xs)) rs) = sum_list (map (\<lambda>x. sum_list (map (\<lambda>r. f r x) rs)) xs)" for f :: "'a \<Rightarrow> 'b \<Rightarrow> int"
  by (induction rs) (simp_all add: sum_list_addf)

lemma reason_pairs_sum:
  "sum_list (map snd (filter (\<lambda>kv. fst kv = (kd, direction)) (reason_pairs tagged reason))) =
     sum_list (map (\<lambda>x. if candidate reason (fst x) \<and> fst (fst x) = kd \<and> fst (snd (fst x)) = direction then snd x else 0) tagged)"
proof -
  have "sum_list (map snd (filter (\<lambda>kv. fst kv = (kd, direction)) (reason_pairs tagged reason)))
      = sum_list (map snd (filter (\<lambda>r. fst r = (kd, direction)) (candidate_rows tagged reason)))"
    unfolding reason_pairs_rows by (rule counted_filter [of "\<lambda>x. x = (kd, direction)"])
  also have "\<dots> = sum_list (map snd (filter (\<lambda>x. candidate reason (fst x) \<and> fst (fst x) = kd \<and> fst (snd (fst x)) = direction) tagged))"
    by (induction tagged) (auto simp: candidate_rows_def)
  finally show ?thesis by (simp only: sum_filter_if)
qed

text \<open>C35: the row of all move candidates counts every candidate once: under a kind and direction it has the sum over
  the tagged counts with that kind and direction whose category is an acquisition marked as a pair with one of the four
  reasons, or a drop whose partner had one of them.\<close>

theorem pair_totals_once:
  "get_default 0 (pair_totals tagged) (kd, direction) =
     sum_list (map snd (filter (\<lambda>x. (\<exists>r \<in> set PAIR_REASONS. candidate r (fst x)) \<and> fst (fst x) = kd \<and> fst (snd (fst x)) = direction) tagged))"
proof -
  let ?is = "\<lambda>x. fst (fst x) = kd \<and> fst (snd (fst x)) = direction"
  have "get_default 0 (pair_totals tagged) (kd, direction) =
      sum_list (map (\<lambda>r. sum_list (map snd (filter (\<lambda>kv. fst kv = (kd, direction)) (reason_pairs tagged r)))) PAIR_REASONS)"
    unfolding pair_totals_def counted_entry by (rule sum_filter_concat)
  also have "\<dots> = sum_list (map (\<lambda>x. sum_list (map (\<lambda>r. if candidate r (fst x) \<and> ?is x then snd x else 0) PAIR_REASONS)) tagged)"
    unfolding reason_pairs_sum by (rule sum_swap)
  also have "\<dots> = sum_list (map (\<lambda>x. if (\<exists>r \<in> set PAIR_REASONS. candidate r (fst x)) \<and> ?is x then snd x else 0) tagged)"
  proof (intro arg_cong [where f = sum_list] map_cong refl)
    fix x :: "tag_key \<times> int"
    have "sum_list (map (\<lambda>r. if candidate r (fst x) \<and> ?is x then snd x else 0) PAIR_REASONS)
        = (if \<exists>r \<in> set PAIR_REASONS. candidate r (fst x) \<and> ?is x then snd x else 0)"
    proof (rule sum_reasons [where P = "\<lambda>r x. candidate r (fst x) \<and> ?is x"])
      show "distinct PAIR_REASONS" by (simp add: PAIR_REASONS_def)
    qed (use candidate_reason in blast)
    then show "sum_list (map (\<lambda>r. if candidate r (fst x) \<and> ?is x then snd x else 0) PAIR_REASONS)
        = (if (\<exists>r \<in> set PAIR_REASONS. candidate r (fst x)) \<and> ?is x then snd x else 0)" by simp
  qed
  finally show ?thesis by (simp only: sum_filter_if)
qed

section \<open>Projections that are pairs\<close>

definition paired_projection :: "string \<Rightarrow> int \<Rightarrow> string \<Rightarrow> tag_key" where
  "paired_projection kd f source = (kd, ''inc'', f, acquire_category ''projection'' source ''pair'')"

lemma paired_projection_category: "acquire_category ''projection'' source ''pair'' = ''acquire:projection+pair''"
  by (simp add: acquire_category_def)

lemma paired_projection_no_candidate: "r \<in> set PAIR_REASONS \<Longrightarrow> \<not> candidate r (paired_projection kd f source)"
  by (auto simp: PAIR_REASONS_def candidate_def paired_projection_def paired_projection_category)

lemma candidate_rows_snoc:
  "\<not> candidate r key \<Longrightarrow> candidate_rows (tagged @ [(key, n)]) r = candidate_rows tagged r"
  by (simp add: candidate_rows_def)

text \<open>C36: an acquisition by projection that the markers saw paired with a drop is grouped as a projection, but the
  table of pairs leaves it out of the row of projections and of all rows of move candidates; only the difference of
  acquisitions and drops printed below the table counts it, so this difference is off by as many.\<close>

theorem paired_projections_uncounted:
  "group_of (acquire_category ''projection'' source ''pair'') = Inr ''Projection acquisition''
   \<and> projection_pairs (tagged @ [(paired_projection kd f source, n)]) = projection_pairs tagged
   \<and> pair_totals (tagged @ [(paired_projection kd f source, n)]) = pair_totals tagged
   \<and> pair_mismatch (tagged @ [(paired_projection kd f source, n)]) kd = pair_mismatch tagged kd + n"
proof (intro conjI)
  show "group_of (acquire_category ''projection'' source ''pair'') = Inr ''Projection acquisition''"
    unfolding paired_projection_category by code_simp
  show "projection_pairs (tagged @ [(paired_projection kd f source, n)]) = projection_pairs tagged"
    by (simp add: projection_pairs_def paired_projection_def paired_projection_category)
  have "reason_pairs (tagged @ [(paired_projection kd f source, n)]) r = reason_pairs tagged r" if "r \<in> set PAIR_REASONS" for r
    unfolding reason_pairs_rows using candidate_rows_snoc [OF paired_projection_no_candidate [OF that]] by simp
  then have "map (reason_pairs (tagged @ [(paired_projection kd f source, n)])) PAIR_REASONS = map (reason_pairs tagged) PAIR_REASONS"
    by simp
  then show t: "pair_totals (tagged @ [(paired_projection kd f source, n)]) = pair_totals tagged"
    unfolding pair_totals_def by (rule arg_cong [where f = "\<lambda>x. counted (concat x)"])
  show "pair_mismatch (tagged @ [(paired_projection kd f source, n)]) kd = pair_mismatch tagged kd + n"
    unfolding pair_mismatch_def t by (simp add: paired_projection_def paired_projection_category ends_with_def)
qed

end
