(* ===== verification/Py_Greedy.thy ===== *)
theory Py_Greedy
  imports Py_Scan
begin

text \<open>
  The match that Python reports is the first in backtracking order. For patterns whose greedy choices are
  the right ones it is found without search: each part of the pattern consumes the next piece of the text.
\<close>

text \<open>After \<open>u\<close>, with \<open>a @ w\<close> ahead, the first match of \<open>r\<close> consumes \<open>a\<close> and leaves the captures \<open>d\<close>.\<close>

definition leads :: "re \<Rightarrow> string \<Rightarrow> string \<Rightarrow> string \<Rightarrow> caps \<Rightarrow> caps \<Rightarrow> bool" where
  "leads r u a w c d \<longleftrightarrow> (\<exists>rest. matches r (u @ a @ w) (length u) c = (length u + length a, d) # rest)"

lemma leads_Seq:
  assumes "leads r u a (b @ w) c d" and "leads q (u @ a) b w d e"
  shows "leads (Seq r q) u (a @ b) w c e"
  using assms by (auto simp: leads_def add.assoc)

lemma leads_to_end: "leads r u a b c d \<Longrightarrow> leads q (u @ a) b [] d e \<Longrightarrow> leads (Seq r q) u (a @ b) [] c e"
  by (rule leads_Seq) simp_all

lemma leads_Grp: "leads r u a w c d \<Longrightarrow> leads (Grp n r) u a w c ((n, length u, length u + length a) # d)"
  by (auto simp: leads_def)

lemma leads_lit: "leads (lit a) u a w c c"
  by (simp add: leads_def matches_lit starts_at_def)

lemma leads_Eps: "leads Eps u [] w c c"
  by (simp add: leads_def)

lemma leads_TextStart: "leads TextStart [] [] w c c"
  by (simp add: leads_def)

lemma leads_TextEnd: "w = [] \<or> w = [newline] \<Longrightarrow> leads TextEnd u [] w c c"
  by (auto simp: leads_def nth_append)

lemma leads_Alt: "leads r u a w c d \<Longrightarrow> leads (Alt r q) u a w c d"
  by (auto simp: leads_def)

lemma leads_Alt2: "matches r (u @ a @ w) (length u) c = [] \<Longrightarrow> leads q u a w c d \<Longrightarrow> leads (Alt r q) u a w c d"
  by (auto simp: leads_def)

lemma matches_lit_other: "w \<noteq> [] \<Longrightarrow> v = [] \<or> hd v \<noteq> hd w \<Longrightarrow> matches (lit w) (u @ v) (length u) c = []"
  by (cases v; cases w) (simp_all add: matches_lit starts_at_def)

lemma leads_Cls: "p x \<Longrightarrow> leads (Cls p) u [x] w c c"
  by (simp add: leads_def nth_append)

lemma iter_run:
  assumes "\<forall>x \<in> set a. p x" and "w = [] \<or> \<not> p (hd w)" and "length a \<le> n"
  shows "\<exists>rest. iter True n (matches (Cls p) (u @ a @ w)) (length u) c = (length u + length a, c) # rest"
  using assms(1,3)
proof (induction a arbitrary: u n)
  case Nil
  show ?case
  proof (cases n)
    case (Suc m)
    have "matches (Cls p) (u @ w) (length u) c = []" using assms(2) by (cases w) (auto simp: nth_append)
    then show ?thesis by (simp add: Suc)
  qed simp
next
  case (Cons x a)
  then obtain m where n: "n = Suc m" by (cases n) auto
  have one: "matches (Cls p) (u @ (x # a) @ w) (length u) c = [(length (u @ [x]), c)]"
    using Cons.prems by (simp add: nth_append)
  have "\<exists>rest. iter True m (matches (Cls p) ((u @ [x]) @ a @ w)) (length (u @ [x])) c
      = (length (u @ [x]) + length a, c) # rest"
    by (rule Cons.IH) (use Cons.prems n in simp_all)
  then show ?case using one by (auto simp: n simp del: matches.simps)
qed

lemma leads_Star:
  assumes "\<forall>x \<in> set a. p x" and "w = [] \<or> \<not> p (hd w)"
  shows "leads (Star (Cls p)) u a w c c"
  unfolding leads_def matches.simps(5)
  by (rule iter_run [OF assms]) simp

lemma leads_Plus:
  assumes "a \<noteq> []" and "\<forall>x \<in> set a. p x" and "w = [] \<or> \<not> p (hd w)"
  shows "leads (Plus (Cls p)) u a w c c"
proof -
  obtain x b where a: "a = [x] @ b" using assms(1) by (cases a) auto
  show ?thesis
    unfolding a by (rule leads_Seq [OF leads_Cls leads_Star]) (use assms a in auto)
qed

lemma leads_match:
  assumes "leads r u a w [] d"
  shows "match_at r (u @ a @ w) (length u) = Some \<lparr>m_start = length u, m_end = length u + length a, m_caps = d\<rparr>"
  using assms by (auto simp: leads_def match_at_def)

lemmas leads_re_match = leads_match [where u = "[]", simplified]

lemma cut_middle: "cut (u @ a @ w) (length u) (length u + length a) = a"
  by (simp add: cut_def)

end
