(* ===== verification/Sites.thy ===== *)
theory Sites
  imports Allocation_Sites Py_Greedy
begin

text \<open>
  The properties of \<^verbatim>\<open>allocation-sites\<close>: a stack is named by its first compiled function and that
  function's callee, the tables account for every allocation, batching gives every address its own answer of
  the symbolizer, and the rows printed are read back by the report.
\<close>

section \<open>Compiled functions\<close>

text \<open>The name of a compiled function without a local suffix, by its characters.\<close>

definition compiled_name :: "string \<Rightarrow> string option" where
  "compiled_name name =
     (let digits = takeWhile is_digit (drop 8 name); rest = dropWhile is_digit (drop 8 name) in
      if starts_with name ''blorp_f_'' \<and> digits \<noteq> [] \<and> (rest = [] \<or> rest = [newline] \<or> hd rest = CHR ''.'')
      then Some (''blorp_f_'' @ digits) else None)"

lemma not_digit_end: "\<not> is_digit newline" "\<not> is_digit CHR ''.''"
  by (simp_all add: is_digit_def)

lemma leads_end: "w = [] \<or> w = [newline] \<Longrightarrow> leads (Alt (lit ''.'') TextEnd) u [] w c c"
  using matches_lit_other [of "''.''" w u c] by (intro leads_Alt2 leads_TextEnd) auto

lemma compiled_match:
  assumes "digits \<noteq> []" and "\<forall>x \<in> set digits. is_digit x" and "rest = [] \<or> rest = [newline] \<or> hd rest = CHR ''.'' \<and> rest \<noteq> []"
  shows "\<exists>m. re_match COMPILED_FUNCTION (''blorp_f_'' @ digits @ rest) = Some m
    \<and> grp (''blorp_f_'' @ digits @ rest) m 1 = ''blorp_f_'' @ digits"
proof -
  let ?name = "''blorp_f_'' @ digits"
  have "leads (Seq (lit ''blorp_f_'') (Plus (Cls is_digit))) [] ?name rest [] []"
    by (rule leads_Seq [OF leads_lit leads_Plus]) (use assms not_digit_end in auto)
  from leads_Grp [OF this, of 1]
  have g: "leads (Grp 1 (Seq (lit ''blorp_f_'') (Plus (Cls is_digit)))) [] ?name rest [] [(1, 0, length ?name)]"
    by simp
  obtain b w where rest: "rest = b @ w" and e: "leads (Alt (lit ''.'') TextEnd) ?name b w [(1, 0, length ?name)] [(1, 0, length ?name)]"
  proof -
    from assms(3) consider "rest = [] \<or> rest = [newline]" | t where "rest = ''.'' @ t" by (cases rest) auto
    then show ?thesis
    proof cases
      case 1
      then have "leads (Alt (lit ''.'') TextEnd) ?name [] rest [(1, 0, length ?name)] [(1, 0, length ?name)]"
        by (rule leads_end)
      then show ?thesis using that [of "[]" rest] by simp
    next
      case 2
      then show ?thesis using that [of "''.''" t] leads_Alt [OF leads_lit] by blast
    qed
  qed
  from e have e': "leads (Alt (lit ''.'') TextEnd) ([] @ ?name) b w [(1, 0, length ?name)] [(1, 0, length ?name)]" by simp
  note tail = leads_Seq [OF g [unfolded rest] e']
  have "leads COMPILED_FUNCTION [] (?name @ b) w [] [(1, 0, length ?name)]"
    using leads_Seq [OF leads_TextStart, of _ "?name @ b" w] tail by (simp add: COMPILED_FUNCTION_def)
  from leads_re_match [OF this] show ?thesis
    by (simp add: rest grp_def group_def cut_def)
qed

lemma takeWhile_run:
  assumes "\<forall>x \<in> set a. p x" and "w = [] \<or> \<not> p (hd w)"
  shows "takeWhile p (a @ w) = a \<and> dropWhile p (a @ w) = w"
  using assms by (cases w) (auto simp: takeWhile_append dropWhile_append)

lemma compiled_span:
  assumes "spans name COMPILED_FUNCTION 0 j"
  obtains digits rest where "name = ''blorp_f_'' @ digits @ rest" and "digits \<noteq> []" and "\<forall>x \<in> set digits. is_digit x"
    and "rest = [] \<or> rest = [newline] \<or> hd rest = CHR ''.'' \<and> rest \<noteq> []"
proof -
  have e8: "0 + length ''blorp_f_'' = 8" by simp
  from assms obtain i where i: "spans name TextStart 0 i"
    and tail: "spans name (Seq (Seq (lit ''blorp_f_'') (Plus (Cls is_digit))) (Alt (lit ''.'') TextEnd)) i j"
    unfolding COMPILED_FUNCTION_def seqs.simps spans_Seq spans_Grp by blast
  from i have "i = 0" by (rule spans_elims(7)) simp
  with tail obtain k where pre: "starts_at name ''blorp_f_'' 0"
    and run': "spans name (Plus (Cls is_digit)) (0 + length ''blorp_f_'') k"
    and end_at: "spans name (Alt (lit ''.'') TextEnd) k j"
    unfolding spans_Seq spans_lit [OF list.distinct(2)] by blast
  note run = run' [unfolded e8]
  have len: "8 \<le> length name" using starts_at_length [OF pre] by simp
  from run have first: "8 < length name" "is_digit (name ! 8)" and more: "spans name (Star (Cls is_digit)) 9 k"
    by (auto simp: spans_Seq spans_Cls)
  have k: "9 \<le> k" "k \<le> length name" using spans_bounds [OF more] first by auto
  have digit: "is_digit (name ! i)" if "8 \<le> i" "i < k" for i
    using that first spans_Star_Cls [OF more] by (cases "i = 8") auto
  have split: "name = ''blorp_f_'' @ cut name 8 k @ drop k name"
  proof -
    have "take 8 name = ''blorp_f_''" using pre by (simp add: starts_at_def eval_nat_numeral)
    moreover have "drop 8 name = cut name 8 k @ drop k name"
      using k append_take_drop_id [of "k - 8" "drop 8 name"] by (simp add: cut_def)
    ultimately show ?thesis by (metis append_take_drop_id)
  qed
  have "drop k name = [] \<or> drop k name = [newline] \<or> hd (drop k name) = CHR ''.'' \<and> drop k name \<noteq> []"
  proof -
    from end_at consider "starts_at name ''.'' k" | "k = length name" | "Suc k = length name" "name ! k = newline"
      by (auto simp: spans_Alt spans_lit elim: spans_elims)
    then show ?thesis
    proof cases
      case 1
      then show ?thesis by (cases "drop k name") (auto simp: starts_at_def)
    next
      case 3
      then show ?thesis by (simp add: Cons_nth_drop_Suc [symmetric])
    qed simp
  qed
  moreover have "cut name 8 k \<noteq> []" using k by (simp add: cut_def)
  moreover have "\<forall>x \<in> set (cut name 8 k). is_digit x"
    using digit k by (auto simp: in_set_conv_nth length_cut nth_cut)
  ultimately show ?thesis using that split by blast
qed

lemma compiled_name_shape:
  assumes "digits \<noteq> []" and "\<forall>x \<in> set digits. is_digit x" and "rest = [] \<or> rest = [newline] \<or> hd rest = CHR ''.'' \<and> rest \<noteq> []"
  shows "compiled_name (''blorp_f_'' @ digits @ rest) = Some (''blorp_f_'' @ digits)"
proof -
  have "rest = [] \<or> \<not> is_digit (hd rest)" using assms(3) not_digit_end by auto
  from takeWhile_run [OF assms(2) this] assms show ?thesis by (auto simp: compiled_name_def Let_def)
qed

lemma compiled_iff: "map_option (\<lambda>m. grp name m 1) (re_match COMPILED_FUNCTION name) = compiled_name name"
proof (cases "re_match COMPILED_FUNCTION name")
  case None
  have "compiled_name name = None"
  proof (rule ccontr)
    assume "compiled_name name \<noteq> None"
    then have sw: "starts_with name ''blorp_f_''" and d: "takeWhile is_digit (drop 8 name) \<noteq> []"
      and r: "dropWhile is_digit (drop 8 name) = [] \<or> dropWhile is_digit (drop 8 name) = [newline] \<or> hd (dropWhile is_digit (drop 8 name)) = CHR ''.''"
      by (auto simp: compiled_name_def Let_def split: if_splits)
    have "take 8 name = ''blorp_f_''" using sw by (simp add: eval_nat_numeral)
    then have n: "name = ''blorp_f_'' @ takeWhile is_digit (drop 8 name) @ dropWhile is_digit (drop 8 name)"
      by (metis append_take_drop_id takeWhile_dropWhile_id)
    have "\<forall>x \<in> set (takeWhile is_digit (drop 8 name)). is_digit x" using set_takeWhileD by metis
    from compiled_match [OF d this, of "dropWhile is_digit (drop 8 name)"] r None show False
      unfolding n [symmetric] by (metis option.distinct(1))
  qed
  with None show ?thesis by simp
next
  case (Some m)
  then have "spans name COMPILED_FUNCTION 0 (m_end m)" using match_at_Some [OF Some] by simp
  then obtain digits rest where n: "name = ''blorp_f_'' @ digits @ rest" and ok: "digits \<noteq> []" "\<forall>x \<in> set digits. is_digit x"
      "rest = [] \<or> rest = [newline] \<or> hd rest = CHR ''.'' \<and> rest \<noteq> []" by (rule compiled_span)
  show ?thesis using compiled_match [OF ok] compiled_name_shape [OF ok] unfolding n by force
qed


section \<open>Naming a stack\<close>

text \<open>The site and the helper of a stack, from the names of its frames, innermost first.\<close>

definition site_of :: "string list \<Rightarrow> string \<times> string" where
  "site_of names =
     (let inner = takeWhile (\<lambda>n. compiled_name n = None) names in
      case dropWhile (\<lambda>n. compiled_name n = None) names of
        [] \<Rightarrow> (NO_COMPILED_CALLER, DIRECT_ALLOCATION)
      | n # _ \<Rightarrow> (the (compiled_name n),
          if inner = [] \<or> starts_with (last inner) ALLOCATOR_PREFIX then DIRECT_ALLOCATION else last inner))"

lemma classify_from_spec:
  assumes "list_all (\<lambda>f. dict_get names f \<noteq> None) frames"
  shows "classify_from callee frames names =
    Inr (let ns = map (\<lambda>f. the (dict_get names f)) frames;
             inner = (case callee of None \<Rightarrow> [] | Some c \<Rightarrow> [c]) @ takeWhile (\<lambda>n. compiled_name n = None) ns in
         case dropWhile (\<lambda>n. compiled_name n = None) ns of
           [] \<Rightarrow> (NO_COMPILED_CALLER, DIRECT_ALLOCATION)
         | n # _ \<Rightarrow> (the (compiled_name n),
             if inner = [] \<or> starts_with (last inner) ALLOCATOR_PREFIX then DIRECT_ALLOCATION else last inner))"
  using assms
proof (induction callee frames names rule: classify_from.induct)
  case (2 callee frame frames names)
  from "2.prems" obtain name where name: "dict_get names frame = Some name" by auto
  show ?case
  proof (cases "re_match COMPILED_FUNCTION name")
    case None
    then have c: "compiled_name name = None" using compiled_iff [of name] by simp
    have "classify_from callee (frame # frames) names = classify_from (Some name) frames names"
      using name None by (simp add: dict_index_def)
    also have "\<dots> = Inr (let ns = map (\<lambda>f. the (dict_get names f)) frames;
             inner = (case Some name of None \<Rightarrow> [] | Some c \<Rightarrow> [c]) @ takeWhile (\<lambda>n. compiled_name n = None) ns in
         case dropWhile (\<lambda>n. compiled_name n = None) ns of
           [] \<Rightarrow> (NO_COMPILED_CALLER, DIRECT_ALLOCATION)
         | n # _ \<Rightarrow> (the (compiled_name n),
             if inner = [] \<or> starts_with (last inner) ALLOCATOR_PREFIX then DIRECT_ALLOCATION else last inner))"
      by (rule "2.IH") (use None "2.prems" in simp_all)
    finally show ?thesis using name c by (simp add: Let_def cong: list.case_cong)
  next
    case (Some m)
    then have c: "compiled_name name = Some (grp name m 1)" using compiled_iff [of name] by simp
    with name Some show ?thesis by (auto simp: dict_index_def Let_def split: option.splits)
  qed
qed simp

text \<open>C32: a stack is named by the innermost frame that is a compiled function, that is, \<open>blorp_f_\<close> and digits,
  then nothing or a dot, and by the frame this function called, unless that is the allocator or there is none;
  a stack without a compiled function gets the fixed name for it.\<close>

theorem classify_spec:
  assumes "list_all (\<lambda>f. dict_get names f \<noteq> None) frames"
  shows "classify frames names = Inr (site_of (map (\<lambda>f. the (dict_get names f)) frames))"
  unfolding classify_def classify_from_spec [OF assms] site_of_def by (simp add: Let_def)

theorem classify_spec_witness:
  "classify [1, 2, 3] [(1, ''blorp_memory_allocate''), (2, ''blorp_list_append_I''), (3, ''blorp_f_7.cold'')]
     = Inr (''blorp_f_7'', ''blorp_list_append_I'')"
proof -
  let ?names = "[(1, ''blorp_memory_allocate''), (2, ''blorp_list_append_I''), (3, ''blorp_f_7.cold'')] :: (int, string) dict"
  have "list_all (\<lambda>f. dict_get ?names f \<noteq> None) [1, 2, 3]" by simp
  moreover have "site_of (map (\<lambda>f. the (dict_get ?names f)) [1, 2, 3]) = (''blorp_f_7'', ''blorp_list_append_I'')" by code_simp
  ultimately show ?thesis using classify_spec [of ?names "[1, 2, 3]"] by simp
qed

section \<open>Totals\<close>

interpretation allocs: additive "(0, 0, 0) :: triple" "\<lambda>(x, t). add_triple t" fst "\<lambda>(x, t). fst t"
  by unfold_locales (auto simp: add_triple_def)

interpretation sizes: additive "(0, 0, 0) :: triple" "\<lambda>(x, t). add_triple t" "\<lambda>t. fst (snd t)" "\<lambda>(x, t). fst (snd t)"
  by unfold_locales (auto simp: add_triple_def)

interpretation resizings: additive "(0, 0, 0) :: triple" "\<lambda>(x, t). add_triple t" "\<lambda>t. snd (snd t)" "\<lambda>(x, t). snd (snd t)"
  by unfold_locales (auto simp: add_triple_def)

definition table_total :: "('k, triple) dict \<Rightarrow> triple" where
  "table_total d = (sum_list (map (\<lambda>kv. fst (snd kv)) d), sum_list (map (\<lambda>kv. fst (snd (snd kv))) d),
     sum_list (map (\<lambda>kv. snd (snd (snd kv))) d))"

lemma fold_add_triple: "fold add_triple ts (a, b, c) =
    (a + sum_list (map fst ts), b + sum_list (map (\<lambda>t. fst (snd t)) ts), c + sum_list (map (\<lambda>t. snd (snd t)) ts))"
  by (induction ts arbitrary: a b c) (simp_all add: add_triple_def)

lemma classified_triples:
  "classified sites names = Inr rows \<Longrightarrow> map snd rows = map (\<lambda>(count, size, resizes, resized, frames). (count, size, resizes)) sites"
  by (induction sites arbitrary: rows) (auto simp: classified_def bindE_Inr_iff split: prod.splits)

lemma tables_total:
  assumes "classified sites names = Inr rows"
  shows "table_total (by_key key rows) = fold add_triple (map snd rows) (0, 0, 0)
    \<and> fold add_triple (map snd rows) (0, 0, 0) =
        (sum_list (map (\<lambda>(count, size, resizes, resized, frames). count) sites),
         sum_list (map (\<lambda>(count, size, resizes, resized, frames). size) sites),
         sum_list (map (\<lambda>(count, size, resizes, resized, frames). resizes) sites))"
proof
  let ?key = "\<lambda>(x, t). key x"
  show "table_total (by_key key rows) = fold add_triple (map snd rows) (0, 0, 0)"
    using allocs.tally_total [of ?key rows] sizes.tally_total [of ?key rows] resizings.tally_total [of ?key rows]
    by (simp add: table_total_def by_key_def fold_add_triple case_prod_beta' o_def)
  show "fold add_triple (map snd rows) (0, 0, 0) =
        (sum_list (map (\<lambda>(count, size, resizes, resized, frames). count) sites),
         sum_list (map (\<lambda>(count, size, resizes, resized, frames). size) sites),
         sum_list (map (\<lambda>(count, size, resizes, resized, frames). resizes) sites))"
    unfolding classified_triples [OF assms] fold_add_triple by (simp add: o_def case_prod_beta')
qed

text \<open>C33: the tables of the script account for every allocation: allocations, bytes and resizes in the table by
  site, in the table by site and helper, and in the total line are the sums over the stacks of the report.\<close>

theorem site_tables_conserve:
  assumes "classified sites names = Inr rows"
  shows "table_total (by_key key rows) = fold add_triple (map snd rows) (0, 0, 0)
    \<and> fold add_triple (map snd rows) (0, 0, 0) =
        (sum_list (map (\<lambda>(count, size, resizes, resized, frames). count) sites),
         sum_list (map (\<lambda>(count, size, resizes, resized, frames). size) sites),
         sum_list (map (\<lambda>(count, size, resizes, resized, frames). resizes) sites))"
  by (rule tables_total [OF assms])

theorem site_tables_conserve_witness:
  "table_total (by_key fst [((''blorp_f_7'', ''(direct)''), (2, 32, 0)), ((''blorp_f_7'', ''h''), (1, 8, 1))]) = (3, 40, 1)"
proof -
  have r: "classified [(2, 32, 0, 0, [1]), (1, 8, 1, 16, [2, 1])] [(1, ''blorp_f_7''), (2, ''h'')]
    = Inr [((''blorp_f_7'', ''(direct)''), (2, 32, 0)), ((''blorp_f_7'', ''h''), (1, 8, 1))]" by code_simp
  from site_tables_conserve [OF r, of fst] show ?thesis by simp
qed


section \<open>Symbolizing\<close>

lemma concat_batches: "0 < n \<Longrightarrow> concat (batches n xs) = xs"
proof (induction n xs rule: batches.induct)
  case (1 n xs)
  then show ?case by (subst batches.simps) auto
qed

lemma batches_parts: "b \<in> set (batches n xs) \<Longrightarrow> b \<noteq> [] \<and> length b \<le> n \<and> set b \<subseteq> set xs"
proof (induction n xs rule: batches.induct)
  case (1 n xs)
  from "1.prems" have ne: "xs \<noteq> []" "n \<noteq> 0" by (auto simp: batches.simps [of n xs] split: if_splits)
  then have "b = take n xs \<or> b \<in> set (batches n (drop n xs))" using "1.prems" by (subst (asm) batches.simps) auto
  then show ?case
    using ne "1.IH" set_take_subset [of n xs] set_drop_subset [of n xs] by auto
qed

lemma foldE_batches:
  assumes "0 < n" and "\<And>b d. b \<in> set (batches n xs) \<Longrightarrow> step b d = Inr (fold f b d)"
  shows "foldE step (batches n xs) d = Inr (fold f xs d)"
proof -
  have "foldE step bs d = Inr (fold f (concat bs) d)" if "set bs \<subseteq> set (batches n xs)" for bs
    using that by (induction bs arbitrary: d) (simp_all add: assms(2))
  from this [of "batches n xs"] concat_batches [OF assms(1), of xs] show ?thesis by simp
qed

lemma cut_concat:
  assumes "\<forall>x \<in> set xs. length x = p" and "i < length xs"
  shows "cut (concat xs) (i * p) ((i + 1) * p) = xs ! i"
  using assms
proof (induction xs arbitrary: i)
  case (Cons x xs)
  show ?case
  proof (cases i)
    case 0
    with Cons.prems show ?thesis by (simp add: cut_def)
  next
    case (Suc k)
    have "cut (concat (x # xs)) (i * p) ((i + 1) * p) = cut (concat xs) (k * p) ((k + 1) * p)"
      using Cons.prems(1) by (simp add: cut_def Suc)
    with Cons Suc show ?thesis by simp
  qed
qed simp

lemma fold_enumerate:
  assumes "\<And>i a. i < length xs \<Longrightarrow> a = xs ! i \<Longrightarrow> f (i, a) = g a"
  shows "fold f (enumerate 0 xs) d = fold g xs d"
proof -
  have "fold f (enumerate 0 xs) d = fold (\<lambda>x. g (snd x)) (enumerate 0 xs) d"
    using assms by (intro fold_cong refl) (auto simp: in_set_enumerate_eq)
  also have "\<dots> = fold g (map snd (enumerate 0 xs)) d" by (simp only: fold_map o_def)
  finally show ?thesis by simp
qed

lemma splitlines_answers:
  assumes "\<And>a l c. a \<in> set batch \<Longrightarrow> l \<in> set (answer a) \<Longrightarrow> c \<in> set l \<Longrightarrow> \<not> is_line_break c"
  shows "splitlines (concat (map (\<lambda>l. l @ [newline]) (concat (map answer batch)))) = concat (map answer batch)"
  using assms by (intro splitlines_concat) auto

lemma length_answers: "\<forall>a \<in> set batch. length (answer a) = p \<Longrightarrow> length (concat (map answer batch)) = length batch * p"
  by (induction batch) auto

lemma puts_lookup: "a \<in> set xs \<Longrightarrow> dict_get (fold (\<lambda>x. dict_put x (v x)) xs []) a = Some (v a)"
proof -
  assume "a \<in> set xs"
  then have "map_of (map (\<lambda>x. (x, v x)) (rev xs)) a = Some (v a)" by (simp add: map_of_map_restrict)
  then show ?thesis using fold_put_lookup [of "\<lambda>x. x" v xs "[]"] by (simp add: rev_map)
qed

text \<open>What is relied on of the symbolizer: for each command the script can give it, it exits with status 0 and
  prints for each address in turn its answer, of one line (atos) or two lines (addr2line).\<close>

definition answers :: "tools \<Rightarrow> string \<Rightarrow> (int \<Rightarrow> string list) \<Rightarrow> int list \<Rightarrow> bool" where
  "answers env binary answer addresses \<longleftrightarrow>
     (which env ''atos'' \<or> which env ''addr2line'')
     \<and> (\<forall>batch. set batch \<subseteq> set addresses \<longrightarrow> (case symbolizer_command env binary batch of
          Inl _ \<Rightarrow> False
        | Inr (command, per) \<Rightarrow>
            (\<exists>err. run_process env command = Inr (0, concat (map (\<lambda>l. l @ [newline]) (concat (map answer batch))), err))
            \<and> (\<forall>a \<in> set batch. length (answer a) = per)))
     \<and> (\<forall>a \<in> set addresses. \<forall>l \<in> set (answer a). \<forall>c \<in> set l. \<not> is_line_break c)"

lemma answers_batch:
  assumes "answers env binary answer addresses" and "set batch \<subseteq> set addresses"
  obtains command per err where "symbolizer_command env binary batch = Inr (command, per)"
    and "run_process env command = Inr (0, concat (map (\<lambda>l. l @ [newline]) (concat (map answer batch))), err)"
    and "\<forall>a \<in> set batch. length (answer a) = per"
    and "splitlines (concat (map (\<lambda>l. l @ [newline]) (concat (map answer batch)))) = concat (map answer batch)"
    and "length (concat (map answer batch)) = length batch * per"
proof -
  from assms have "case symbolizer_command env binary batch of
          Inl _ \<Rightarrow> False
        | Inr (command, per) \<Rightarrow>
            (\<exists>err. run_process env command = Inr (0, concat (map (\<lambda>l. l @ [newline]) (concat (map answer batch))), err))
            \<and> (\<forall>a \<in> set batch. length (answer a) = per)"
    unfolding answers_def by blast
  then obtain command per where c: "symbolizer_command env binary batch = Inr (command, per)"
    and r: "\<exists>err. run_process env command = Inr (0, concat (map (\<lambda>l. l @ [newline]) (concat (map answer batch))), err)"
    and l: "\<forall>a \<in> set batch. length (answer a) = per"
    by (cases "symbolizer_command env binary batch") (auto split: prod.splits)
  have "splitlines (concat (map (\<lambda>l. l @ [newline]) (concat (map answer batch)))) = concat (map answer batch)"
    by (rule splitlines_answers) (use assms in \<open>auto simp: answers_def\<close>)
  with that c r l length_answers [OF l] show ?thesis by blast
qed

lemma cut_answer:
  assumes "\<forall>a \<in> set batch. length (answer a) = per" and "i < length batch"
  shows "cut (concat (map answer batch)) (i * per) ((i + 1) * per) = answer (batch ! i)"
  using cut_concat [of "map answer batch" per i] assms by simp

lemma symbolize_batch_answers:
  assumes "answers env binary answer addresses" and "set batch \<subseteq> set addresses"
  shows "symbolize_batch env binary batch names = Inr (fold (\<lambda>a. dict_put a (function_name (answer a))) batch names)"
proof -
  obtain command per err where c: "symbolizer_command env binary batch = Inr (command, per)"
    and r: "run_process env command = Inr (0, concat (map (\<lambda>l. l @ [newline]) (concat (map answer batch))), err)"
    and l: "\<forall>a \<in> set batch. length (answer a) = per"
    and s: "splitlines (concat (map (\<lambda>l. l @ [newline]) (concat (map answer batch)))) = concat (map answer batch)"
    and n: "length (concat (map answer batch)) = length batch * per"
    using answers_batch [OF assms] by blast
  have "fold (\<lambda>(i, a). dict_put a (function_name (cut (concat (map answer batch)) (i * per) ((i + 1) * per)))) (enumerate 0 batch) names
      = fold (\<lambda>a. dict_put a (function_name (answer a))) batch names"
    by (rule fold_enumerate) (simp add: cut_answer [OF l, simplified])
  then show ?thesis using c r s n by (simp add: symbolize_batch_def Let_def)
qed

text \<open>C31: symbolizing in batches gives every address its own answer: if the symbolizer prints the answers of its
  addresses in order, then each address of any number of stacks is mapped to the function name in its answer.\<close>

theorem symbolize_own_answer:
  assumes "answers env binary answer addresses"
  shows "\<exists>names. sites_symbolize env binary addresses = Inr names
    \<and> (\<forall>a. a \<in> set addresses \<longrightarrow> dict_get names a = Some (function_name (answer a)))"
proof -
  let ?xs = "sort (remdups addresses)"
  have "sites_symbolize env binary addresses = Inr (fold (\<lambda>a. dict_put a (function_name (answer a))) ?xs [])"
    unfolding sites_symbolize_def
  proof (rule foldE_batches)
    fix b d
    assume "b \<in> set (batches SYMBOLIZER_BATCH ?xs)"
    then have "set b \<subseteq> set addresses" using batches_parts by fastforce
    then show "symbolize_batch env binary b d = Inr (fold (\<lambda>a. dict_put a (function_name (answer a))) b d)"
      by (rule symbolize_batch_answers [OF assms])
  qed (simp add: SYMBOLIZER_BATCH_def)
  then show ?thesis using puts_lookup [of _ ?xs "\<lambda>a. function_name (answer a)"] by simp
qed

text \<open>A symbolizer that answers with the address it was asked for.\<close>

definition echo_tools :: tools where
  "echo_tools = \<lparr>which = (\<lambda>tool. tool = ''addr2line''),
     run_process = (\<lambda>command. Inr (0, concat (map (\<lambda>w. (CHR ''f'' # w) @ [newline] @ ''a.c:1'' @ [newline]) (drop 4 command)), []))\<rparr>"

lemma echo_answers:
  assumes "\<forall>a \<in> set addresses. \<forall>c \<in> set (hex (a - 1)). \<not> is_line_break c"
  shows "answers echo_tools binary (\<lambda>a. [CHR ''f'' # hex (a - 1), ''a.c:1'']) addresses"
proof -
  have "concat (map (\<lambda>w. (CHR ''f'' # w) @ [newline] @ ''a.c:1'' @ [newline]) (map g batch)) =
      concat (map (\<lambda>l. l @ [newline]) (concat (map (\<lambda>a. [CHR ''f'' # g a, ''a.c:1'']) batch)))" for g :: "int \<Rightarrow> string" and batch
    by (induction batch) auto
  then show ?thesis
    using assms by (auto simp: answers_def echo_tools_def symbolizer_command_def is_line_break_def)
qed

theorem symbolize_own_answer_witness:
  "\<exists>names. sites_symbolize echo_tools ''b'' [0x1F, 0x11] = Inr names \<and> dict_get names 0x11 = Some ''f0x10''"
proof -
  have h: "hex (0x1F - 1) = ''0x1e''" "hex (0x11 - 1) = ''0x10''" by code_simp+
  have "\<forall>a \<in> set [0x1F, 0x11]. \<forall>c \<in> set (hex (a - 1)). \<not> is_line_break c"
    unfolding list.set ball_simps h by (simp add: is_line_break_def)
  from symbolize_own_answer [OF echo_answers [OF this, of "''b''"]]
  obtain names where "sites_symbolize echo_tools ''b'' [0x1F, 0x11] = Inr names"
    and all: "\<forall>a. a \<in> set [0x1F, 0x11] \<longrightarrow> dict_get names a = Some (function_name [CHR ''f'' # hex (a - 1), ''a.c:1''])" by blast
  moreover have "dict_get names 0x11 = Some (function_name [''f0x10'', ''a.c:1''])"
    using all h(2) by simp
  moreover have "function_name [''f0x10'', ''a.c:1''] = ''f0x10''" by code_simp
  ultimately show ?thesis by auto
qed

end
