(* ===== verification/Copies_Stage.thy ===== *)
theory Copies_Stage
  imports Sites Prof_Report Report_Theorems
begin

text \<open>
  The \<open>copies\<close> stage as a whole: from the call-site table of the instrumented program, through the file it
  prints and the symbolizer, to the cells of the report.
\<close>

lemma prof_report_no_cr: "universal_newlines (prof_report load rows) = prof_report load rows"
  unfolding prof_report_def
proof (rule no_cr_words)
  fix ws
  assume "ws \<in> set ([''#load'', show_pointer load] # map prof_fields (used_rows rows))"
  moreover have "plain_word ''#load''" by (simp add: plain_word_def char_class_defs)
  ultimately show "\<forall>w \<in> set ws. plain_word w" using prof_fields_words show_pointer_word by auto
qed

lemma locate_fold:
  assumes "\<And>i a. i < length xs \<Longrightarrow> a = xs ! i \<Longrightarrow> h i = Inr (place a)"
  shows "foldE (\<lambda>(i, a) d. bindE (h i) (\<lambda>p. Inr (dict_put a p d))) (enumerate 0 xs) d = Inr (fold (\<lambda>a. dict_put a (place a)) xs d)"
proof -
  have "foldE (\<lambda>(i, a) d. bindE (h i) (\<lambda>p. Inr (dict_put a p d))) es d = Inr (fold (\<lambda>(i, a). dict_put a (place a)) es d)"
    if "\<forall>(i, a) \<in> set es. h i = Inr (place a)" for es
    using that by (induction es arbitrary: d) auto
  moreover have "\<forall>(i, a) \<in> set (enumerate 0 xs). h i = Inr (place a)"
    using assms [OF _ refl] by (auto simp: in_set_enumerate_eq)
  ultimately have "foldE (\<lambda>(i, a) d. bindE (h i) (\<lambda>p. Inr (dict_put a p d))) (enumerate 0 xs) d
      = Inr (fold (\<lambda>(i, a). dict_put a (place a)) (enumerate 0 xs) d)" by blast
  also have "fold (\<lambda>(i, a). dict_put a (place a)) (enumerate 0 xs) d = fold (\<lambda>a. dict_put a (place a)) xs d"
    by (rule fold_enumerate) simp
  finally show ?thesis .
qed

lemma locate_batch_answers:
  assumes "answers env binary answer offsets" and "set batch \<subseteq> set offsets" and "\<And>a. a \<in> set offsets \<Longrightarrow> located (answer a) = Inr (place a)"
  shows "locate_batch env binary batch places = Inr (fold (\<lambda>a. dict_put a (place a)) batch places)"
proof -
  obtain command per err where c: "symbolizer_command env binary batch = Inr (command, per)"
    and r: "run_process env command = Inr (0, concat (map (\<lambda>l. l @ [newline]) (concat (map answer batch))), err)"
    and l: "\<forall>a \<in> set batch. length (answer a) = per"
    and s: "splitlines (concat (map (\<lambda>l. l @ [newline]) (concat (map answer batch)))) = concat (map answer batch)"
    and n: "length (concat (map answer batch)) = length batch * per"
    using answers_batch [OF assms(1,2)] by blast
  have "foldE (\<lambda>(i, a) d. bindE (located (cut (concat (map answer batch)) (i * per) ((i + 1) * per))) (\<lambda>found. Inr (dict_put a found d)))
      (enumerate 0 batch) places = Inr (fold (\<lambda>a. dict_put a (place a)) batch places)"
  proof (rule locate_fold)
    fix i a
    assume "i < length batch" "a = batch ! i"
    moreover from this have "a \<in> set offsets" using assms(2) by auto
    ultimately show "located (cut (concat (map answer batch)) (i * per) ((i + 1) * per)) = Inr (place a)"
      using cut_answer [OF l] assms(3) by simp
  qed
  then show ?thesis using c r s n by (simp add: locate_batch_def Let_def)
qed

lemma symbolize_places:
  assumes "answers env binary answer offsets" and "\<And>a. a \<in> set offsets \<Longrightarrow> located (answer a) = Inr (place a)"
  obtains places where "symbolize env binary offsets = Inr places"
    and "\<And>a. a \<in> set offsets \<Longrightarrow> dict_get places a = Some (place a)"
proof
  let ?xs = "sort (remdups offsets)"
  show "symbolize env binary offsets = Inr (fold (\<lambda>a. dict_put a (place a)) ?xs [])"
    unfolding symbolize_def
  proof (rule foldE_batches)
    fix b d
    assume "b \<in> set (batches SYMBOLIZER_BATCH ?xs)"
    then have "set b \<subseteq> set offsets" using batches_parts by fastforce
    then show "locate_batch env binary b d = Inr (fold (\<lambda>a. dict_put a (place a)) b d)"
      by (rule locate_batch_answers [OF assms(1) _ assms(2)])
  qed (simp add: SYMBOLIZER_BATCH_def)
  show "dict_get (fold (\<lambda>a. dict_put a (place a)) ?xs []) a = Some (place a)" if "a \<in> set offsets" for a
    using puts_lookup [of a ?xs place] that by simp
qed

section \<open>Cells of the report\<close>

definition row_offset :: "u64 \<Rightarrow> prof_row \<Rightarrow> int" where
  "row_offset load r = uint (address r) - uint load"

text \<open>The site a row of the table is filed under, and whether it is counted.\<close>

definition row_site :: "(string, string) dict \<Rightarrow> (int \<Rightarrow> string \<times> int) \<Rightarrow> u64 \<Rightarrow> prof_row \<Rightarrow> copy_site" where
  "row_site labels place load r =
     (let (f, line) = place (row_offset load r) in (get_default f labels f, prof_kind_name (kind r), line))"

definition row_counted :: "(int \<Rightarrow> string \<times> int) \<Rightarrow> u64 \<Rightarrow> prof_row \<Rightarrow> bool" where
  "row_counted place load r \<longleftrightarrow>
     \<not> (ends_with (prof_kind_name (kind r)) ''borrowed'' \<and> contains (fst (place (row_offset load r))) ''take_left'')"

lemma copy_site_row:
  assumes "dict_get places (row_offset load r) = Some (place (row_offset load r))"
  shows "copy_site labels places (uint load) (row_read r) =
    Inr (if row_counted place load r then Some (row_site labels place load r, (uint (hits r), uint (units r))) else None)"
  using assms by (auto simp: copy_site_def row_read_def row_offset_def row_counted_def row_site_def dict_index_def split: prod.splits)

lemma copy_sites_rows:
  assumes "\<forall>r \<in> set rs. dict_get places (row_offset load r) = Some (place (row_offset load r))"
  shows "\<exists>found. mapE (copy_site labels places (uint load)) (map row_read rs) = Inr found
    \<and> List.map_filter (\<lambda>x. x) found =
        map (\<lambda>r. (row_site labels place load r, (uint (hits r), uint (units r)))) (filter (row_counted place load) rs)"
  using assms
proof (induction rs)
  case (Cons r rs)
  then obtain found where "mapE (copy_site labels places (uint load)) (map row_read rs) = Inr found"
    and "List.map_filter (\<lambda>x. x) found =
        map (\<lambda>r. (row_site labels place load r, (uint (hits r), uint (units r)))) (filter (row_counted place load) rs)" by auto
  with copy_site_row [of places load r place labels] Cons.prems show ?case by (auto simp: map_filter_simps)
qed (simp add: map_filter_simps)

text \<open>C2: the whole \<open>copies\<close> stage. The report reads the table that the instrumented program printed, locates each
  return address through the symbolizer, and files under a function, path and line exactly the hits and units
  of the rows whose address lies there, leaving out only the borrowed copies made inside an in-place helper.\<close>

theorem copies_stage_counts:
  assumes "fs (stage_file directory ''copies'' ''prof.tsv'') = Inr (prof_report load rows)"
    and "function_labels fs directory = Inr labels"
    and "answers env (stage_file directory ''copies'' ''binary'') answer (map (row_offset load) (used_rows rows))"
    and "list_all (\<lambda>a. located (answer a) = Inr (place a)) (map (row_offset load) (used_rows rows))"
  shows "\<exists>sites. read_copy_rows fs env directory = Inr sites
    \<and> get_default (0, 0) sites key =
        (sum_list (map (\<lambda>r. uint (hits r)) (filter (\<lambda>r. row_counted place load r \<and> row_site labels place load r = key) (used_rows rows))),
         sum_list (map (\<lambda>r. uint (units r)) (filter (\<lambda>r. row_counted place load r \<and> row_site labels place load r = key) (used_rows rows))))"
proof -
  let ?rs = "used_rows rows"
  have offsets: "map (\<lambda>(k, a, h, u). a - uint load) (map row_read ?rs) = map (row_offset load) ?rs"
    by (simp add: row_read_def row_offset_def o_def)
  obtain places where places: "symbolize env (stage_file directory ''copies'' ''binary'') (map (row_offset load) ?rs) = Inr places"
    and at: "\<And>a. a \<in> set (map (row_offset load) ?rs) \<Longrightarrow> dict_get places a = Some (place a)"
    using symbolize_places [OF assms(3), of place] assms(4) by (auto simp: list_all_iff)
  obtain found where found: "mapE (copy_site labels places (uint load)) (map row_read ?rs) = Inr found"
    and cells: "List.map_filter (\<lambda>x. x) found =
        map (\<lambda>r. (row_site labels place load r, (uint (hits r), uint (units r)))) (filter (row_counted place load) ?rs)"
    using copy_sites_rows [of ?rs places load place labels] at by auto
  have "read_copy_rows fs env directory = Inr (sum_cells (List.map_filter (\<lambda>x. x) found))"
    using assms(1,2) places found
    by (simp add: read_copy_rows_def read_def read_file_def prof_report_no_cr prof_report_read offsets [unfolded map_map])
  moreover have "filter (\<lambda>r. row_counted place load r \<and> row_site labels place load r = key) ?rs =
      filter (\<lambda>r. row_site labels place load r = key) (filter (row_counted place load) ?rs)" by (simp add: conj_commute)
  ultimately show ?thesis
    by (simp add: cells sum_cells_entry filter_map o_def)
qed

lemma used_rows_single: "i < PROF_SLOTS \<Longrightarrow> hits r \<noteq> 0 \<Longrightarrow> used_rows (prof_rows0(i := r)) = [r]"
proof -
  assume i: "i < PROF_SLOTS" and r: "hits r \<noteq> 0"
  have "[0..<PROF_SLOTS] = [0..<i] @ i # [Suc i..<PROF_SLOTS]"
    using i upt_add_eq_append [of 0 i "PROF_SLOTS - i"] by (simp add: upt_conv_Cons)
  moreover have "filter (\<lambda>r. hits r \<noteq> 0) (map (prof_rows0(i := r)) js) = []" if "i \<notin> set js" for js
    using that by (induction js) (auto simp: prof_rows0_def empty_row_def)
  ultimately show ?thesis using r by (simp add: used_rows_def)
qed

theorem copies_stage_counts_witness:
  "\<exists>fs sites. read_copy_rows fs echo_tools ''d'' = Inr sites
     \<and> get_default (0, 0) sites (''f0x10'', ''list_unique'', 1) = (7, 21)"
proof -
  let ?row = "\<lparr>address = 0x111, kind = PROF_LIST_UNIQUE, hits = 7, units = 21\<rparr>"
  let ?rows = "prof_rows0(5 := ?row)"
  let ?answer = "\<lambda>a. [CHR ''f'' # hex (a - 1), ''a.c:1'']"
  define fs :: files where "fs = (\<lambda>path. if path = ''d/copies/prof.tsv'' then Inr (prof_report 0x100 ?rows) else Inr [])"
  have used: "used_rows ?rows = [?row]" by (rule used_rows_single) (simp_all add: PROF_SLOTS_def)
  have offset: "row_offset 0x100 ?row = 0x11" by (simp add: row_offset_def)
  have h: "hex (0x11 - 1) = ''0x10''" by code_simp
  have f: "fs (stage_file ''d'' ''copies'' ''prof.tsv'') = Inr (prof_report 0x100 ?rows)"
    by (simp add: fs_def stage_file_def path_join_def)
  have labels: "function_labels fs ''d'' = Inr []"
  proof -
    have "fs (path_join ''d'' ''self.c'') = Inr []" by (simp add: fs_def path_join_def)
    moreover have "function_comments [] = []" by code_simp
    ultimately show ?thesis by (simp add: function_labels_def read_function_comments_def read_file_def)
  qed
  have "\<forall>a \<in> set (map (row_offset 0x100) (used_rows ?rows)). \<forall>c \<in> set (hex (a - 1)). \<not> is_line_break c"
    unfolding used list.map list.set ball_simps offset h by (simp add: is_line_break_def)
  note ans = echo_answers [OF this, of "stage_file ''d'' ''copies'' ''binary''"]
  have "located (?answer 0x11) = Inr (''f0x10'', 1)" unfolding h by code_simp
  then have l: "list_all (\<lambda>a. located (?answer a) = Inr ((\<lambda>_. (''f0x10'', 1)) a)) (map (row_offset 0x100) (used_rows ?rows))"
    unfolding used list.map offset by simp
  have c: "row_counted (\<lambda>_. (''f0x10'', 1)) 0x100 ?row" by (simp add: row_counted_def ends_with_def)
  have k: "row_site [] (\<lambda>_. (''f0x10'', 1)) 0x100 ?row = (''f0x10'', ''list_unique'', 1)" by (simp add: row_site_def get_default_def)
  from copies_stage_counts [OF f labels ans l, of "(''f0x10'', ''list_unique'', 1)"]
  have "\<exists>sites. read_copy_rows fs echo_tools ''d'' = Inr sites \<and> get_default (0, 0) sites (''f0x10'', ''list_unique'', 1) = (7, 21)"
    unfolding used using c k by simp
  then show ?thesis by blast
qed

end
