(* ===== verification/Py_Float.thy ===== *)
theory Py_Float
  imports Py_Format
begin

text \<open>
  The rounding of binary64 arithmetic: the exponent brackets a positive number between two powers of two, the
  nearest float is within half a unit of its argument, and hence within \<open>2 ^ -53\<close> of it relatively as long as
  it is not subnormal. The printed tenths of a share rest on these bounds.
\<close>

lemma pow2_powi: "pow2 e = 2 powi e"
proof (cases "0 \<le> e")
  case False
  then show ?thesis by (simp only: pow2_def power_int_def if_False inverse_eq_divide power_one_over)
qed (simp add: pow2_def power_int_def)

lemma bits_bounds: "0 < n \<Longrightarrow> 0 < bits n \<and> 2 powi (bits n - 1) \<le> (of_int n :: rat) \<and> (of_int n :: rat) < 2 powi bits n"
proof (induction n rule: bits.induct)
  case (1 n)
  have eq: "bits n = bits (n div 2) + 1" using "1.prems" by (subst bits.simps) simp
  show ?case
  proof (cases "n = 1")
    case True
    have "bits 0 = 0" by (subst bits.simps) simp
    with True eq show ?thesis by simp
  next
    case False
    with "1.prems" have half: "0 < n div 2" by linarith
    have IH: "0 < bits (n div 2)" "2 powi (bits (n div 2) - 1) \<le> (of_int (n div 2) :: rat)"
        "(of_int (n div 2) :: rat) < 2 powi bits (n div 2)"
      using "1.IH" [OF _ half] "1.prems" by auto
    have "of_int (2 * (n div 2)) \<le> (of_int n :: rat)" by (subst of_int_le_iff) linarith
    moreover have "2 * 2 powi (bits (n div 2) - 1) = (2 :: rat) powi bits (n div 2)"
      by (simp add: power_int_diff)
    ultimately have lo: "2 powi bits (n div 2) \<le> (of_int n :: rat)" using IH(2) by simp
    have pow: "(2 :: rat) powi bits (n div 2) = of_int (2 ^ nat (bits (n div 2)))" using IH(1) by (simp add: power_int_def)
    from IH(3) have "n div 2 < 2 ^ nat (bits (n div 2))" unfolding pow of_int_less_iff .
    then have "n < 2 * 2 ^ nat (bits (n div 2))" by linarith
    then have "(of_int n :: rat) < of_int (2 * 2 ^ nat (bits (n div 2)))" by (subst of_int_less_iff)
    then have "(of_int n :: rat) < 2 powi (bits (n div 2) + 1)" by (simp add: pow power_int_add)
    with lo IH(1) show ?thesis by (simp add: eq)
  qed
qed

lemma exponent_bounds:
  assumes "0 < x"
  shows "2 powi exponent x \<le> x \<and> x < 2 powi (exponent x + 1)"
proof -
  obtain p q where pq: "quotient_of x = (p, q)" by (cases "quotient_of x")
  have q: "0 < q" using quotient_of_denom_pos [OF pq] .
  have x: "x = of_int p / of_int q" using quotient_of_div [OF pq] .
  have p: "0 < p" using assms q unfolding x by (simp add: zero_less_divide_iff)
  let ?e = "bits p - bits q"
  note bp = bits_bounds [OF p] and bq = bits_bounds [OF q]
  have "x < 2 powi bits p / 2 powi (bits q - 1)"
    unfolding x using bp bq p q by (intro frac_less) auto
  also have "\<dots> = 2 powi (?e + 1)" by (simp add: power_int_diff power_int_add)
  finally have hi: "x < 2 powi (?e + 1)" .
  have "2 powi (?e - 1) = (2 :: rat) powi (bits p - 1) / 2 powi bits q" by (simp add: power_int_diff)
  also have "\<dots> \<le> x" unfolding x using bp bq p q by (intro frac_le) auto
  finally have lo: "2 powi (?e - 1) \<le> x" .
  show ?thesis
    using hi lo by (auto simp: exponent_def pq pow2_powi Let_def)
qed

lemma unit_pos: "0 < unit_of x"
  by (simp add: unit_of_def pow2_powi)

lemma rnd_near: "\<bar>rnd x - x\<bar> \<le> unit_of x / 2"
proof (cases "x = 0")
  case True
  then show ?thesis using unit_pos [of 0] by (simp add: rnd_def)
next
  case False
  let ?u = "unit_of x"
  have "rnd x - x = (of_int (round_even (x / ?u)) - x / ?u) * ?u"
    using False unit_pos [of x] by (simp add: rnd_def left_diff_distrib)
  then have "\<bar>rnd x - x\<bar> = \<bar>of_int (round_even (x / ?u)) - x / ?u\<bar> * ?u"
    using unit_pos [of x] by (simp add: abs_mult)
  also have "\<dots> \<le> 1 / 2 * ?u" by (rule mult_right_mono [OF round_even_near]) (use unit_pos [of x] in simp)
  finally show ?thesis by simp
qed

lemma unit_le:
  assumes "2 powi (- 1022) \<le> x"
  shows "unit_of x \<le> x / 2 ^ 52"
proof -
  have pos: "0 < x" using assms by (rule less_le_trans [rotated]) simp
  note b = exponent_bounds [OF pos]
  have "- 1022 < exponent x + 1"
  proof (rule ccontr)
    assume "\<not> ?thesis"
    then have "(2 :: rat) powi (exponent x + 1) \<le> 2 powi (- 1022)" by (intro power_int_increasing) auto
    with b assms show False by simp
  qed
  then have "max (exponent x - 52) (- 1074) = exponent x - 52" by linarith
  then have "unit_of x = 2 powi (exponent x - 52)" using pos by (simp only: unit_of_def pow2_powi abs_of_pos)
  also have "\<dots> = 2 powi exponent x / 2 ^ 52" by (simp add: power_int_diff)
  also have "\<dots> \<le> x / 2 ^ 52" using b by (simp add: divide_right_mono)
  finally show ?thesis .
qed

lemma rnd_relative: "2 powi (- 1022) \<le> x \<Longrightarrow> \<bar>rnd x - x\<bar> \<le> x / 2 ^ 53"
  using rnd_near [of x] unit_le [of x] by simp

lemma rnd_nonneg: "0 \<le> x \<Longrightarrow> 0 \<le> rnd x"
proof -
  assume "0 \<le> x"
  then have "round_even 0 \<le> round_even (x / unit_of x)"
    using unit_pos [of x] by (intro round_even_mono) simp
  moreover have "round_even 0 = 0" using round_even_int [of 0] by simp
  ultimately show ?thesis using unit_pos [of x] by (simp add: rnd_def)
qed

lemma to_float_Fin: "\<bar>rnd x\<bar> < 2 ^ 1024 \<Longrightarrow> to_float x = Fin (rnd x)"
  by (simp add: to_float_def Let_def)


section \<open>A rounded number as a small relative change\<close>

definition slight :: "rat \<Rightarrow> bool" where
  "slight d \<longleftrightarrow> \<bar>d\<bar> \<le> 1 / 10 ^ 9"

lemma rnd_factor:
  assumes "2 powi (- 1022) \<le> x"
  obtains d where "slight d" and "rnd x = x * (1 + d)"
proof
  have pos: "0 < x" using assms by (rule less_le_trans [rotated]) simp
  have "\<bar>(rnd x - x) / x\<bar> \<le> 1 / 2 ^ 53"
    using rnd_relative [OF assms] pos by (simp add: abs_divide divide_le_eq)
  then show "slight ((rnd x - x) / x)" by (simp add: slight_def)
  show "rnd x = x * (1 + (rnd x - x) / x)" using pos by (simp add: field_simps)
qed

lemma slight_bounds: "slight d \<Longrightarrow> 1 - 1 / 10 ^ 9 \<le> 1 + d \<and> 1 + d \<le> 1 + 1 / 10 ^ 9"
  unfolding slight_def abs_le_iff by linarith

lemma slight_quotient:
  assumes "slight a" "slight b" "slight c" "slight d"
  shows "\<bar>(1 + a) * (1 + b) * (1 + c) / (1 + d) - 1\<bar> \<le> 1 / 10 ^ 7"
proof -
  note A = slight_bounds [OF assms(1)] and B = slight_bounds [OF assms(2)]
    and C = slight_bounds [OF assms(3)] and D = slight_bounds [OF assms(4)]
  have hi: "(1 + a) * (1 + b) * (1 + c) \<le> (1 + 1 / 10 ^ 9) * (1 + 1 / 10 ^ 9) * (1 + 1 / 10 ^ 9)"
    using A B C by (intro mult_mono) auto
  have lo: "(1 - 1 / 10 ^ 9) * (1 - 1 / 10 ^ 9) * (1 - 1 / 10 ^ 9) \<le> (1 + a) * (1 + b) * (1 + c)"
    using A B C by (intro mult_mono) auto
  have d: "0 < 1 + d" using D by (rule conjE) (simp add: less_le_trans [rotated])
  have "(1 + a) * (1 + b) * (1 + c) \<le> (1 + 1 / 10 ^ 7) * (1 + d)"
  proof -
    have "(1 + 1 / 10 ^ 7) * (1 - 1 / 10 ^ 9) \<le> (1 + 1 / 10 ^ 7) * (1 + d)" using D by (intro mult_left_mono) auto
    moreover have "(1 + 1 / 10 ^ 9) * (1 + 1 / 10 ^ 9) * (1 + 1 / 10 ^ 9) \<le> (1 + 1 / 10 ^ 7) * (1 - 1 / 10 ^ 9 :: rat)" by simp
    ultimately show ?thesis using hi by linarith
  qed
  moreover have "(1 - 1 / 10 ^ 7) * (1 + d) \<le> (1 + a) * (1 + b) * (1 + c)"
  proof -
    have "(1 - 1 / 10 ^ 7) * (1 + d) \<le> (1 - 1 / 10 ^ 7) * (1 + 1 / 10 ^ 9)" using D by (intro mult_left_mono) auto
    moreover have "(1 - 1 / 10 ^ 7) * (1 + 1 / 10 ^ 9) \<le> (1 - 1 / 10 ^ 9) * (1 - 1 / 10 ^ 9) * (1 - 1 / 10 ^ 9 :: rat)" by simp
    ultimately show ?thesis using lo by linarith
  qed
  ultimately have "1 - 1 / 10 ^ 7 \<le> (1 + a) * (1 + b) * (1 + c) / (1 + d)" "(1 + a) * (1 + b) * (1 + c) / (1 + d) \<le> 1 + 1 / 10 ^ 7"
    using d by (simp_all only: pos_le_divide_eq pos_divide_le_eq)
  then show ?thesis unfolding abs_le_iff by linarith
qed

end
