(* ===== verification/Report_Bounds.thy ===== *)
theory Report_Bounds
  imports Report_Theorems Prof_Report Py_Float
begin

text \<open>
  Bounds of what the report prints: a share is computed with four rounded operations and printed with one
  decimal; it stays between 0 and 100 and close to the exact share.
\<close>

lemma tiny: "1 / 2 ^ 1000 \<le> x \<Longrightarrow> 2 powi (- 1022) \<le> x" for x :: rat
proof -
  assume "1 / 2 ^ 1000 \<le> x"
  moreover have "2 powi (- 1022) \<le> (1 / 2 ^ 1000 :: rat)" by (simp add: power_int_def power_one_over)
  ultimately show ?thesis by linarith
qed

lemma to_float_normal:
  assumes "1 / 2 ^ 1000 \<le> x" and "x \<le> 2 ^ 1000"
  obtains d where "slight d" and "to_float x = Fin (x * (1 + d))"
proof -
  obtain d where d: "slight d" "rnd x = x * (1 + d)" using rnd_factor [OF tiny [OF assms(1)]] by blast
  have "0 \<le> x" using assms(1) by (rule order_trans [rotated]) simp
  then have n: "0 \<le> rnd x" by (rule rnd_nonneg)
  have "rnd x \<le> 2 ^ 1000 * 2"
    unfolding d(2) using slight_bounds [OF d(1)] \<open>0 \<le> x\<close> assms(2) by (intro mult_mono) auto
  then have "\<bar>rnd x\<bar> < 2 ^ 1024" using n by simp
  from to_float_Fin [OF this] d that show ?thesis by simp
qed

text \<open>A limit under which no operation overflows or is subnormal.\<close>

definition SHARE_LIMIT :: int where
  "SHARE_LIMIT = 2 ^ 900"

definition share_limit :: rat where
  "share_limit = of_int SHARE_LIMIT"

lemma share_limit_facts: "1 \<le> share_limit" "400 * share_limit \<le> 2 ^ 1000" "1 / 2 ^ 1000 \<le> 1 / share_limit" "(1 :: rat) / 2 ^ 1000 \<le> 1"
  by (simp_all add: share_limit_def SHARE_LIMIT_def)

lemma float_of_int_normal:
  assumes "1 \<le> n" and "n \<le> SHARE_LIMIT"
  obtains d where "slight d" and "float_of_int n = Inr (Fin (of_int n * (1 + d)))"
proof -
  have "(of_int n :: rat) \<le> share_limit" using assms(2) by (simp only: share_limit_def of_int_le_iff)
  then have "(of_int n :: rat) \<le> 2 ^ 1000" using share_limit_facts(1,2) by linarith
  moreover have "(1 :: rat) \<le> of_int n" using assms(1) by simp
  then have "1 / 2 ^ 1000 \<le> (of_int n :: rat)" using share_limit_facts(4) by linarith
  ultimately obtain d where "slight d" "to_float (of_int n) = Fin (of_int n * (1 + d))" using to_float_normal by blast
  then show ?thesis using that by (simp add: float_of_int_def)
qed

lemma slight_scale: "slight d \<Longrightarrow> 0 < x \<Longrightarrow> x / 2 \<le> x * (1 + d) \<and> x * (1 + d) \<le> 2 * x" for x :: rat
proof -
  assume d: "slight d" and x: "0 < x"
  have "1 / 2 \<le> 1 + d" "1 + d \<le> 2" using slight_bounds [OF d] by simp_all
  then have "x * (1 / 2) \<le> x * (1 + d)" "x * (1 + d) \<le> x * 2" using x by (simp_all only: mult_le_cancel_left_pos)
  then show ?thesis by simp
qed

lemma share_zero:
  assumes "0 < n" and "n \<le> SHARE_LIMIT"
  shows "share 0 n = Inr (Fin 0)"
proof -
  have "1 \<le> n" using assms(1) by linarith
  then obtain d where d: "slight d" "float_of_int n = Inr (Fin (of_int n * (1 + d)))"
    using assms(2) by (rule float_of_int_normal)
  have "0 < (of_int n :: rat) * (1 + d)" using slight_scale [OF d(1), of "of_int n"] assms(1) by simp
  moreover have "float_of_int 0 = Inr (Fin 0)" "to_float 0 = Fin 0" by (simp_all add: float_of_int_def to_float_def rnd_def)
  moreover have "of_int n * (1 + d) \<noteq> 0" using calculation(1) by (rule less_imp_neq [THEN not_sym])
  ultimately show ?thesis using d(2) by (simp add: share_def del: mult_eq_0_iff)
qed

text \<open>The four operations: both conversions, the product and the quotient.\<close>

lemma share_steps:
  assumes "1 \<le> part" and "part \<le> n" and "n \<le> SHARE_LIMIT"
  obtains a b c d where "slight a" "slight b" "slight c" "slight d"
    and "share part n = Inr (Fin (100 * of_int part / of_int n * ((1 + a) * (1 + b) * (1 + c) / (1 + d))))"
proof -
  let ?p = "of_int part :: rat" and ?n = "of_int n :: rat"
  have le: "1 \<le> ?p" "?p \<le> ?n" "?n \<le> share_limit" using assms by (simp_all add: share_limit_def)
  obtain a where a: "slight a" "float_of_int part = Inr (Fin (?p * (1 + a)))"
    by (rule float_of_int_normal [OF assms(1) order_trans [OF assms(2,3)]])
  obtain d where d: "slight d" "float_of_int n = Inr (Fin (?n * (1 + d)))"
    by (rule float_of_int_normal [OF order_trans [OF assms(1,2)] assms(3)])
  have A: "?p / 2 \<le> ?p * (1 + a) \<and> ?p * (1 + a) \<le> 2 * ?p" using le(1) by (intro slight_scale a) linarith
  have D: "?n / 2 \<le> ?n * (1 + d) \<and> ?n * (1 + d) \<le> 2 * ?n" using le by (intro slight_scale d) linarith
  define h where "h = 100 * (?p * (1 + a))"
  have H: "50 \<le> h" "h \<le> 200 * ?n" using A le by (simp_all only: h_def) linarith+
  have "1 / 2 ^ 1000 \<le> h" "h \<le> 2 ^ 1000" using H le share_limit_facts by linarith+
  then obtain b where b: "slight b" "to_float h = Fin (h * (1 + b))" by (rule to_float_normal)
  have B: "h / 2 \<le> h * (1 + b) \<and> h * (1 + b) \<le> 2 * h" using H by (intro slight_scale b) linarith
  have pos: "0 < ?n * (1 + d)" using D le by linarith
  define q where "q = h * (1 + b) / (?n * (1 + d))"
  have "1 / share_limit \<le> q"
  proof -
    have "1 / share_limit \<le> 2 / (2 * ?n)" using le by (simp add: divide_simps)
    also have "\<dots> \<le> q" unfolding q_def using B H D pos by (intro frac_le) linarith+
    finally show ?thesis .
  qed
  moreover have "q \<le> 2 ^ 1000"
  proof -
    have "q \<le> (400 * ?n) / (?n / 2)" unfolding q_def using B H D le by (intro frac_le) linarith+
    also have "\<dots> = 800" using le by simp
    finally show ?thesis by (rule order_trans) simp
  qed
  ultimately have "1 / 2 ^ 1000 \<le> q" "q \<le> 2 ^ 1000" using share_limit_facts(3) by linarith+
  then obtain c where c: "slight c" "to_float q = Fin (q * (1 + c))" by (rule to_float_normal)
  have "?n * (1 + d) \<noteq> 0" using pos by (rule less_imp_neq [THEN not_sym])
  then have "share part n = Inr (Fin (q * (1 + c)))"
    using a(2) d(2) b(2) c(2) by (simp add: share_def h_def q_def del: mult_eq_0_iff)
  also have "q * (1 + c) = 100 * ?p / ?n * ((1 + a) * (1 + b) * (1 + c) / (1 + d))"
    by (simp add: q_def h_def)
  finally show ?thesis using that a(1) b(1) c(1) d(1) by blast
qed

lemma share_near:
  assumes "0 \<le> part" and "part \<le> n" and "0 < n" and "n \<le> SHARE_LIMIT"
  obtains y where "share part n = Inr (Fin y)" and "0 \<le> y" and "\<bar>y - 100 * of_int part / of_int n\<bar> \<le> 1 / 10 ^ 5"
proof (cases "part = 0")
  case True
  with that share_zero [OF assms(3,4)] show ?thesis by simp
next
  case False
  let ?r = "100 * of_int part / of_int n :: rat"
  have r: "0 \<le> ?r" "?r \<le> 100" using assms by (simp_all add: divide_le_eq)
  have "1 \<le> part" using assms(1) False by linarith
  then obtain a b c d where s: "slight a" "slight b" "slight c" "slight d"
    and y: "share part n = Inr (Fin (?r * ((1 + a) * (1 + b) * (1 + c) / (1 + d))))"
    using assms(2,4) by (rule share_steps)
  define f where "f = (1 + a) * (1 + b) * (1 + c) / (1 + d)"
  have f: "\<bar>f - 1\<bar> \<le> 1 / 10 ^ 7" unfolding f_def by (rule slight_quotient [OF s])
  have "\<bar>?r * f - ?r\<bar> = ?r * \<bar>f - 1\<bar>"
  proof -
    have "\<bar>x * f - x\<bar> = x * \<bar>f - 1\<bar>" if "0 \<le> x" for x
      using that abs_mult [of x "f - 1"] by (simp add: right_diff_distrib)
    from this [OF r(1)] show ?thesis .
  qed
  also have "\<dots> \<le> 100 * (1 / 10 ^ 7)" using r f by (intro mult_mono) auto
  finally have "\<bar>?r * f - ?r\<bar> \<le> 1 / 10 ^ 5" by simp
  moreover have "0 \<le> f" using abs_ge_minus_self [of "f - 1"] f by simp
  then have "0 \<le> ?r * f" using r(1) by (simp only: mult_nonneg_nonneg)
  ultimately show ?thesis using that y by (simp add: f_def)
qed

lemma fixed_one:
  assumes "0 \<le> x"
  shows "fixed 1 x = show_nat (nat (round_even (x * 10)) div 10) @ ''.'' @ show_nat (nat (round_even (x * 10)) mod 10)"
proof -
  have "zero_pad 1 (show_nat k) = show_nat k" for k
  proof -
    have "show_nat k \<noteq> []" using show_nat_word [of k] by (simp add: plain_word_def)
    then have "1 - length (show_nat k) = 0" by (cases "show_nat k") auto
    then show ?thesis by (simp add: zero_pad_def)
  qed
  then show ?thesis using assms by (simp add: fixed_def Let_def)
qed

lemma tenths_near:
  assumes "0 \<le> y" and "\<bar>y - r\<bar> \<le> 1 / 10 ^ 5" and "r \<le> 100" and "m = nat (round_even (y * 10))"
  shows "m \<le> 1000" and "\<bar>of_nat m / 10 - r\<bar> \<le> 51 / 1000"
proof -
  have "round_even 0 = 0" using round_even_int [of 0] by simp
  then have nn: "0 \<le> round_even (y * 10)" using round_even_mono [of 0 "y * 10"] assms(1) by simp
  then have m: "(of_nat m :: rat) = of_int (round_even (y * 10))" by (simp add: assms(4))
  have near: "\<bar>of_int (round_even (y * 10)) - y * 10\<bar> \<le> 1 / 2" by (rule round_even_near)
  have y: "y - r \<le> 1 / 10 ^ 5" "r - y \<le> 1 / 10 ^ 5" using assms(2) unfolding abs_le_iff by simp_all
  have n: "of_int (round_even (y * 10)) - y * 10 \<le> 1 / 2" "y * 10 - of_int (round_even (y * 10)) \<le> 1 / 2"
    using near unfolding abs_le_iff by simp_all
  have "(of_int (round_even (y * 10)) :: rat) \<le> y * 10 + 1 / 2" using n(1) by linarith
  also have "\<dots> < of_int 1001" using y assms(3) by simp
  finally have "round_even (y * 10) < 1001" by (simp only: of_int_less_iff)
  then show "m \<le> 1000" using assms(4) by linarith
  show "\<bar>of_nat m / 10 - r\<bar> \<le> 51 / 1000" unfolding m abs_le_iff using n y by simp
qed

text \<open>C34: the share the report prints for a part of a whole is a number of tenths \<open>m\<close> between 0.0 and 100.0, and
  within 0.051 of the exact percentage, whatever the four floating-point roundings do; this for every whole up to
  \<open>2 ^ 900\<close>, which no sum of 64-bit counters reaches.\<close>

theorem percent_close:
  assumes "0 \<le> part" and "part \<le> n" and "0 < n" and "n \<le> SHARE_LIMIT"
  shows "\<exists>m. percent part n = Inr (show_nat (m div 10) @ ''.'' @ show_nat (m mod 10) @ ''%'') \<and> m \<le> 1000
    \<and> \<bar>of_nat m / 10 - 100 * of_int part / of_int n\<bar> \<le> (51 / 1000 :: rat)"
proof -
  obtain y where y: "share part n = Inr (Fin y)" "0 \<le> y" "\<bar>y - 100 * of_int part / of_int n\<bar> \<le> 1 / 10 ^ 5"
    using share_near [OF assms] by blast
  define m where "m = nat (round_even (y * 10))"
  have r: "100 * of_int part / of_int n \<le> (100 :: rat)" using assms by (simp add: divide_le_eq)
  have "percent part n = Inr (show_nat (m div 10) @ ''.'' @ show_nat (m mod 10) @ ''%'')"
    using y(1) assms(3) fixed_one [OF y(2)] by (simp add: percent_def m_def)
  with tenths_near [OF y(2,3) r m_def] show ?thesis by blast
qed

theorem percent_close_witness:
  "\<exists>m. percent 1 3 = Inr (show_nat (m div 10) @ ''.'' @ show_nat (m mod 10) @ ''%'') \<and> m \<le> 1000
    \<and> \<bar>of_nat m / 10 - 100 / 3\<bar> \<le> (51 / 1000 :: rat)"
proof -
  have "(3 :: int) \<le> SHARE_LIMIT" by (simp add: SHARE_LIMIT_def)
  then show ?thesis using percent_close [of 1 3] by simp
qed

end
