(* ===== verification/Sites_Table.thy ===== *)
theory Sites_Table
  imports Sites Report_Bounds
begin

text \<open>
  From \<^verbatim>\<open>allocation-sites\<close> to the \<open>allocations\<close> stage of the report: each row that \<open>print_table\<close> prints is
  matched by the report's pattern, with the numbers and the names it was printed from.
\<close>

section \<open>Labels\<close>

lemma suffix_span:
  assumes "spans s FUNCTION_SUFFIX i j" and "i \<le> length s"
  obtains digits rest where "drop i s = '' (blorp_f_'' @ digits @ '')'' @ rest" and "\<forall>x \<in> set digits. is_digit x"
    and "rest = [] \<or> rest = [newline]"
proof -
  have e: "length '' (blorp_f_'' = 10" "length '')'' = 1" by simp_all
  from assms(1) obtain k l where pre: "starts_at s '' (blorp_f_'' i"
    and run': "spans s (Plus (Cls is_digit)) (i + length '' (blorp_f_'') k"
    and close: "starts_at s '')'' k" and "l = k + length '')''" and fin': "spans s TextEnd l j"
    unfolding FUNCTION_SUFFIX_def seqs.simps spans_Seq [of _ "lit _"] spans_Seq [of _ "Plus _" "Seq _ _"]
      spans_lit [OF list.distinct(2)] by blast
  then have fin: "spans s TextEnd (k + 1) j" by simp
  note run = run' [unfolded e]
  have le: "i + 10 \<le> length s" using starts_at_length [OF pre] by simp
  from run have more: "spans s (Star (Cls is_digit)) (Suc (i + 10)) k" and first: "i + 10 < length s" "is_digit (s ! (i + 10))"
    by (auto simp: spans_Seq spans_Cls)
  have k: "i + 10 < k" "k \<le> length s" using spans_bounds [OF more] first by auto
  have d: "is_digit (s ! n)" if "i + 10 \<le> n" "n < k" for n
    using that first spans_Star_Cls [OF more] by (cases "n = i + 10") auto
  have "drop i s = take 10 (drop i s) @ cut s (i + 10) k @ drop k s"
    using cut_drop_split [of "i + 10" k s] k by (metis add.commute append_take_drop_id drop_drop less_imp_le_nat)
  moreover have "take 10 (drop i s) = '' (blorp_f_''" using pre by (simp add: starts_at_def eval_nat_numeral)
  moreover have "drop k s = '')'' @ drop (k + 1) s"
    using starts_at_nth [OF close, of 0] Cons_nth_drop_Suc [of k s] by simp
  moreover have "drop (k + 1) s = [] \<or> drop (k + 1) s = [newline]"
  proof -
    from fin consider "k + 1 = length s" | "Suc (k + 1) = length s" "s ! (k + 1) = newline" by (auto elim: spans_elims)
    then show ?thesis by cases (simp_all add: Cons_nth_drop_Suc [symmetric])
  qed
  moreover have "\<forall>x \<in> set (cut s (i + 10) k). is_digit x"
    using d k by (auto simp: in_set_conv_nth length_cut nth_cut)
  ultimately show ?thesis using that by metis
qed

lemma suffix_min_len: "0 < min_len FUNCTION_SUFFIX"
  by (simp add: FUNCTION_SUFFIX_def)

lemma suffix_match:
  assumes "digits \<noteq> []" and "\<forall>x \<in> set digits. is_digit x"
  shows "\<exists>m. match_at FUNCTION_SUFFIX (u @ '' (blorp_f_'' @ digits @ '')'') (length u) = Some m
    \<and> m_start m = length u \<and> m_end m = length (u @ '' (blorp_f_'' @ digits @ '')'')"
proof -
  have "leads FUNCTION_SUFFIX u ('' (blorp_f_'' @ digits @ '')'' @ []) [] [] []"
    unfolding FUNCTION_SUFFIX_def seqs.simps
    by (rule leads_Seq [OF leads_lit leads_Seq [OF leads_Plus leads_Seq [OF leads_lit leads_TextEnd]]])
      (use assms in \<open>auto simp: is_digit_def\<close>)
  from leads_match [OF this] show ?thesis by simp
qed

lemma suffix_unique:
  assumes "spans (u @ '' (blorp_f_'' @ digits @ '')'') FUNCTION_SUFFIX i j" and "i < length u" and "\<forall>x \<in> set digits. is_digit x"
  shows False
proof -
  let ?s = "u @ '' (blorp_f_'' @ digits @ '')''"
  obtain ds rest where d: "drop i ?s = '' (blorp_f_'' @ ds @ '')'' @ rest" and ds: "\<forall>x \<in> set ds. is_digit x"
    and rest: "rest = [] \<or> rest = [newline]"
    using suffix_span [OF assms(1)] assms(2) by auto
  have "last (drop i ?s) = CHR '')''" using assms(2) by simp
  with d rest have r: "rest = []" by auto
  obtain x l where "drop i u = x # l" using assms(2) by (cases "drop i u") auto
  then have "tl (drop i ?s) = l @ CHR '' '' # ''(blorp_f_'' @ digits @ '')''" using assms(2) by simp
  then have "CHR '' '' \<in> set (tl (drop i ?s))" by (simp only: set_append list.set) blast
  then have "CHR '' '' \<in> set (tl ('' (blorp_f_'' @ ds @ '')''))" unfolding d r append_Nil2 .
  then show False using ds by (auto simp: is_digit_def)
qed

lemma search_first:
  assumes "match_at r s k = Some m" and "k \<le> length s" and "\<And>i. i < k \<Longrightarrow> match_at r s i = None" and "i \<le> k"
  shows "search r s i = Some m"
  using assms(4)
proof (induction "k - i" arbitrary: i)
  case 0
  with assms(1,2) show ?case by (subst search.simps) simp
next
  case (Suc n)
  then have "search r s (Suc i) = Some m" by (intro Suc.hyps(1)) auto
  with Suc assms(2,3) show ?case by (subst search.simps) simp
qed

lemma suffix_removed:
  assumes "digits \<noteq> []" and "\<forall>x \<in> set digits. is_digit x"
  shows "re_sub FUNCTION_SUFFIX (\<lambda>_ _. []) (u @ '' (blorp_f_'' @ digits @ '')'') = u"
proof -
  let ?s = "u @ '' (blorp_f_'' @ digits @ '')''"
  obtain m where m: "match_at FUNCTION_SUFFIX ?s (length u) = Some m" "m_start m = length u" "m_end m = length ?s"
    using suffix_match [OF assms] by blast
  have "match_at FUNCTION_SUFFIX ?s i = None" if "i < length u" for i
    using suffix_unique [OF _ that assms(2)] that by (subst match_at_None_iff) auto
  then have "search FUNCTION_SUFFIX ?s 0 = Some m" by (intro search_first [OF m(1)]) auto
  moreover have "search FUNCTION_SUFFIX ?s (length ?s) = None"
  proof (rule ccontr)
    assume "search FUNCTION_SUFFIX ?s (length ?s) \<noteq> None"
    then obtain m' where "search FUNCTION_SUFFIX ?s (length ?s) = Some m'" by blast
    from search_Some [OF this] suffix_min_len show False by linarith
  qed
  moreover have "m_start m < m_end m" using m by simp
  ultimately have "find_matches FUNCTION_SUFFIX ?s = [m]" using m(3) by (simp add: finditer.simps)
  then show ?thesis using m by (simp add: re_sub_def cut_def)
qed

lemma suffix_absent: "CHR '' '' \<notin> set s \<Longrightarrow> re_sub FUNCTION_SUFFIX f s = s"
proof -
  assume no: "CHR '' '' \<notin> set s"
  have "search FUNCTION_SUFFIX s 0 = None"
  proof (rule ccontr)
    assume "search FUNCTION_SUFFIX s 0 \<noteq> None"
    then obtain m where m: "search FUNCTION_SUFFIX s 0 = Some m" by blast
    note f = search_Some [OF m]
    have le: "m_start m \<le> length s" using f by linarith
    have "match_at FUNCTION_SUFFIX s (m_start m) = Some m" using f by blast
    from match_at_Some [OF this le] have "spans s FUNCTION_SUFFIX (m_start m) (m_end m)" by blast
    then obtain ds rest where "drop (m_start m) s = '' (blorp_f_'' @ ds @ '')'' @ rest" using le by (rule suffix_span)
    then have "CHR '' '' \<in> set (drop (m_start m) s)" by simp
    with no show False by (meson in_set_dropD)
  qed
  then show ?thesis by (simp add: re_sub_def finditer.simps)
qed

section \<open>The separator\<close>

text \<open>A label that the separator cannot be confused with: it is not in the label, and does not begin in it.\<close>

definition arrow_free :: "string \<Rightarrow> bool" where
  "arrow_free label \<longleftrightarrow> (\<forall>k \<le> length label. \<not> starts_at (label @ '' '') '' <- '' k)"

lemma partition_arrow_label:
  assumes "arrow_free label"
  shows "partition_arrow (label @ '' <- '' @ helper) = (label, helper)"
proof -
  let ?s = "label @ '' <- '' @ helper"
  have here: "starts_at ?s '' <- '' (length label)" by (simp add: starts_at_def)
  have before: "\<not> starts_at ?s '' <- '' k" if "k < length label" for k
  proof
    assume a: "starts_at ?s '' <- '' k"
    have at: "?s ! (k + i) = '' <- '' ! i" if "i < 4" for i using starts_at_nth [OF a, of i] that by simp
    show False
    proof (cases "k + 4 \<le> length label + 1")
      case True
      have "take 4 (drop k ?s) = take 4 (drop k (label @ '' ''))"
      proof -
        have "take n (drop k (x @ y)) = take n (drop k x)" if "k + n \<le> length x" for n and x y :: string using that by simp
        from this [of 4 "label @ '' ''" "''<- '' @ helper"] True show ?thesis by simp
      qed
      then have "starts_at (label @ '' '') '' <- '' k" using a by (simp add: starts_at_def eval_nat_numeral)
      with assms that show False by (simp add: arrow_free_def)
    next
      case False
      have "?s ! (length label + 1) = CHR ''<''" by (simp add: nth_append)
      moreover have "length label + 1 = k + 2 \<or> length label + 1 = k + 3" using False that by linarith
      ultimately show False using at [of 2] at [of 3] by (auto simp: eval_nat_numeral)
    qed
  qed
  have "find_from ?s '' <- '' 0 = Some (length label)" by (rule find_from_first [OF here before]) simp_all
  then show ?thesis by (simp add: partition_arrow_def)
qed

section \<open>Rows\<close>

lemma rjust_pieces: "\<exists>n. rjust k s = replicate n CHR '' '' @ s"
  by (auto simp: rjust_def)

lemma digit_facts: "is_digit c \<Longrightarrow> \<not> is_space c" "\<not> is_digit CHR '' ''" "\<not> is_digit CHR ''%''" "is_space CHR '' ''" "\<not> is_space CHR ''%''"
  by (auto simp: is_digit_not_space is_digit_def is_space_def)

definition digits_word :: "string \<Rightarrow> bool" where
  "digits_word w \<longleftrightarrow> w \<noteq> [] \<and> (\<forall>c \<in> set w. is_digit c)"

lemma digits_word_hd: "digits_word w \<Longrightarrow> w @ t \<noteq> [] \<and> \<not> is_space (hd (w @ t))"
  using digit_facts(1) by (cases w) (auto simp: digits_word_def)

lemma show_nat_digits_word: "digits_word (show_nat n)"
  using show_nat_digits show_nat_word [of n] by (auto simp: digits_word_def plain_word_def)

abbreviation blanks :: "nat \<Rightarrow> string" where
  "blanks n \<equiv> replicate n CHR '' ''"

text \<open>A row in its pieces, as the pattern takes them.\<close>

definition site_line :: "nat \<Rightarrow> string \<Rightarrow> nat \<Rightarrow> string \<Rightarrow> nat \<Rightarrow> string \<Rightarrow> nat \<Rightarrow> string \<Rightarrow> nat \<Rightarrow> string \<Rightarrow> string" where
  "site_line n1 w1 n2 w2 n3 w3 n4 w4 n5 label =
     blanks n1 @ w1 @ blanks n2 @ w2 @ ''%'' @ blanks n3 @ w3 @ blanks n4 @ w4 @ blanks n5 @ label"

lemma leads_eq: "leads r u a w c d \<Longrightarrow> d = d' \<Longrightarrow> leads r u a w c d'"
  by simp

lemma leads_blanks:
  assumes "0 < n" and "w = [] \<or> \<not> is_space (hd w)"
  shows "leads (Plus (Cls is_space)) u (blanks n) w c c"
  by (rule leads_Plus) (use assms in \<open>auto simp: is_space_def\<close>)

lemma leads_digits:
  assumes "digits_word a" and "w \<noteq> []" and "\<not> is_digit (hd w)"
  shows "leads (Grp k (Plus (Cls is_digit))) u a w c ((k, length u, length u + length a) # c)"
  by (rule leads_Grp [OF leads_Plus]) (use assms in \<open>auto simp: digits_word_def\<close>)

lemma blanks_hd: "0 < n \<Longrightarrow> blanks n @ t \<noteq> [] \<and> \<not> is_digit (hd (blanks n @ t))"
  by (cases n) (auto simp: digit_facts)

lemma site_line_match:
  assumes "digits_word w1" and "w2 \<noteq> []" and "\<forall>c \<in> set w2. is_digit c \<or> c = CHR ''.''" and "digits_word w3" and "digits_word w4"
    and "0 < n2" and "0 < n3" and "0 < n4" and "0 < n5"
    and "newline \<notin> set label" and "label = [] \<or> \<not> is_space (hd label)"
  shows "\<exists>p2 p4. re_match SITE_LINE (site_line n1 w1 n2 w2 n3 w3 n4 w4 n5 label) =
    Some \<lparr>m_start = 0, m_end = length (site_line n1 w1 n2 w2 n3 w3 n4 w4 n5 label),
      m_caps = [(5, length (blanks n1 @ w1 @ blanks n2 @ w2 @ ''%'' @ blanks n3 @ w3 @ blanks n4 @ w4 @ blanks n5),
                    length (blanks n1 @ w1 @ blanks n2 @ w2 @ ''%'' @ blanks n3 @ w3 @ blanks n4 @ w4 @ blanks n5) + length label),
                p4, (3, length (blanks n1 @ w1 @ blanks n2 @ w2 @ ''%'' @ blanks n3),
                     length (blanks n1 @ w1 @ blanks n2 @ w2 @ ''%'' @ blanks n3) + length w3),
                p2, (1, length (blanks n1), length (blanks n1) + length w1)]\<rparr> \<and> fst p2 = 2 \<and> fst p4 = 4"
proof -
  have hd2: "w2 @ t = [] \<or> \<not> is_space (hd (w2 @ t))" for t
  proof -
    have "\<not> is_space CHR ''.''" by (simp add: is_space_def)
    with assms(2,3) digit_facts(1) show ?thesis by (cases w2) auto
  qed
  have hdd: "w @ t = [] \<or> \<not> is_space (hd (w @ t))" if "digits_word w" for w t using digits_word_hd [OF that] by blast
  have sp: "\<forall>x \<in> set (blanks n). is_space x" for n by (simp add: is_space_def)
  have share: "leads (Grp 2 (Plus (Cls (\<lambda>c. is_digit c \<or> c = CHR ''.'')))) u w2 (''%'' @ t) c ((2, length u, length u + length w2) # c)" for u t c
    by (rule leads_Grp [OF leads_Plus]) (use assms(2,3) in \<open>auto simp: digit_facts\<close>)
  have rest: "leads (Grp 5 (Star dot)) u label [] c ((5, length u, length u + length label) # c)" for u c
    by (rule leads_Grp [OF leads_Star]) (use assms(10) in auto)
  note b = blanks_hd [THEN conjunct1] blanks_hd [THEN conjunct2]
  have end_at: "leads TextEnd u [] [] c c" for u c by (rule leads_TextEnd) simp
  note line = leads_to_end [OF leads_Star [OF sp hdd [OF assms(1)]]
      leads_to_end [OF leads_digits [OF assms(1) b [OF assms(6)]]
      leads_to_end [OF leads_blanks [OF assms(6) hd2]
      leads_to_end [OF share
      leads_to_end [OF leads_lit
      leads_to_end [OF leads_blanks [OF assms(7) hdd [OF assms(4)]]
      leads_to_end [OF leads_digits [OF assms(4) b [OF assms(8)]]
      leads_to_end [OF leads_blanks [OF assms(8) hdd [OF assms(5)]]
      leads_to_end [OF leads_digits [OF assms(5) b [OF assms(9)]]
      leads_to_end [OF leads_blanks [OF assms(9) assms(11)]
      leads_to_end [OF rest end_at, unfolded append_Nil2]]]]]]]]]]]
  have "leads SITE_LINE [] (site_line n1 w1 n2 w2 n3 w3 n4 w4 n5 label) [] []
     [(5, length (blanks n1 @ w1 @ blanks n2 @ w2 @ ''%'' @ blanks n3 @ w3 @ blanks n4 @ w4 @ blanks n5),
          length (blanks n1 @ w1 @ blanks n2 @ w2 @ ''%'' @ blanks n3 @ w3 @ blanks n4 @ w4 @ blanks n5) + length label),
      (4, length (blanks n1 @ w1 @ blanks n2 @ w2 @ ''%'' @ blanks n3 @ w3 @ blanks n4),
          length (blanks n1 @ w1 @ blanks n2 @ w2 @ ''%'' @ blanks n3 @ w3 @ blanks n4) + length w4),
      (3, length (blanks n1 @ w1 @ blanks n2 @ w2 @ ''%'' @ blanks n3),
          length (blanks n1 @ w1 @ blanks n2 @ w2 @ ''%'' @ blanks n3) + length w3),
      (2, length (blanks n1 @ w1 @ blanks n2), length (blanks n1 @ w1 @ blanks n2) + length w2),
      (1, length (blanks n1), length (blanks n1) + length w1)]"
    unfolding SITE_LINE_def seqs.simps site_line_def
    by (rule leads_eq [OF line]) simp
  from leads_re_match [OF this] show ?thesis by fastforce
qed

lemma site_line_groups:
  assumes "digits_word w1" and "w2 \<noteq> []" and "\<forall>c \<in> set w2. is_digit c \<or> c = CHR ''.''" and "digits_word w3" and "digits_word w4"
    and "0 < n2" and "0 < n3" and "0 < n4" and "0 < n5"
    and "newline \<notin> set label" and "label = [] \<or> \<not> is_space (hd label)"
  obtains m where "re_match SITE_LINE (site_line n1 w1 n2 w2 n3 w3 n4 w4 n5 label) = Some m"
    and "grp (site_line n1 w1 n2 w2 n3 w3 n4 w4 n5 label) m 1 = w1"
    and "grp (site_line n1 w1 n2 w2 n3 w3 n4 w4 n5 label) m 3 = w3"
    and "grp (site_line n1 w1 n2 w2 n3 w3 n4 w4 n5 label) m 5 = label"
proof -
  let ?s = "site_line n1 w1 n2 w2 n3 w3 n4 w4 n5 label"
  let ?u5 = "blanks n1 @ w1 @ blanks n2 @ w2 @ ''%'' @ blanks n3 @ w3 @ blanks n4 @ w4 @ blanks n5"
  let ?u3 = "blanks n1 @ w1 @ blanks n2 @ w2 @ ''%'' @ blanks n3"
  obtain p2 p4 where m: "re_match SITE_LINE ?s = Some \<lparr>m_start = 0, m_end = length ?s,
      m_caps = [(5, length ?u5, length ?u5 + length label), p4, (3, length ?u3, length ?u3 + length w3), p2,
        (1, length (blanks n1), length (blanks n1) + length w1)]\<rparr>" and p: "fst p2 = 2" "fst p4 = 4"
    using site_line_match [OF assms, of n1] by blast
  have "cut ?s (length (blanks n1)) (length (blanks n1) + length w1) = w1"
    unfolding site_line_def by (rule cut_middle)
  moreover have "cut ?s (length ?u3) (length ?u3 + length w3) = w3"
    using cut_middle [of ?u3 w3 "blanks n4 @ w4 @ blanks n5 @ label"] by (simp add: site_line_def)
  moreover have "cut ?s (length ?u5) (length ?u5 + length label) = label"
    using cut_middle [of ?u5 label "[]"] by (simp add: site_line_def)
  ultimately show ?thesis
    using p by (intro that [OF m]) (cases p2; cases p4; simp add: grp_def group_def)+
qed

lemma rjust_blanks: "rjust k s = blanks (k - length s) @ s"
  by (simp add: rjust_def)

lemma table_row_line:
  assumes "0 \<le> count" and "count \<le> n" and "max total_count 1 = n" and "n \<le> SHARE_LIMIT" and "0 \<le> bytes" and "0 \<le> resizes"
  obtains n1 n2 w2 n3 n4 where "w2 \<noteq> []" and "\<forall>c \<in> set w2. is_digit c \<or> c = CHR ''.''" and "0 < n2" and "0 < n3" and "0 < n4"
    and "table_row label (count, bytes, resizes) total_count =
      Inr (site_line n1 (show_nat (nat count)) n2 w2 n3 (show_nat (nat bytes)) n4 (show_nat (nat resizes)) 2 label)"
proof -
  have "0 < n" using assms(3) by linarith
  then obtain y where y: "share count n = Inr (Fin y)" "0 \<le> y" using share_near [OF assms(1,2) _ assms(4)] by blast
  let ?m = "nat (round_even (y * 10))"
  let ?w2 = "show_nat (?m div 10) @ ''.'' @ show_nat (?m mod 10)"
  have pos: "show_int k = show_nat (nat k)" if "0 \<le> k" for k using that by (simp add: show_int_def)
  have blank: "CHR '' '' # blanks k @ t = blanks (Suc k) @ t" for k t by simp
  have "format_f 1 (Fin y) = ?w2" using fixed_one [OF y(2)] by simp
  then have "table_row label (count, bytes, resizes) total_count =
      Inr (site_line (12 - length (show_nat (nat count))) (show_nat (nat count)) (Suc (5 - length ?w2)) ?w2
        (Suc (14 - length (show_nat (nat bytes)))) (show_nat (nat bytes)) (Suc (10 - length (show_nat (nat resizes))))
        (show_nat (nat resizes)) 2 label)"
    using assms y(1) by (simp add: table_row_def pos rjust_blanks site_line_def numeral_2_eq_2)
  moreover have "\<forall>c \<in> set ?w2. is_digit c \<or> c = CHR ''.''" using show_nat_digits by auto
  ultimately show ?thesis by (intro that [of ?w2]) auto
qed

section \<open>Names\<close>

text \<open>The sites that \<open>classify\<close> can name, with comments for compiled functions only.\<close>

definition site_ok :: "(string, string) dict \<Rightarrow> string \<Rightarrow> bool" where
  "site_ok comments site \<longleftrightarrow>
     (\<exists>digits. digits_word digits \<and> site = ''blorp_f_'' @ digits) \<or> site = NO_COMPILED_CALLER \<and> dict_get comments site = None"

lemma label_name:
  assumes "site_ok comments site"
  shows "re_sub FUNCTION_SUFFIX (\<lambda>_ _. []) (site_label comments site) = get_default site comments site"
proof (cases "dict_get comments site")
  case None
  have "re_sub FUNCTION_SUFFIX (\<lambda>_ _. []) site = site"
    using assms
  proof (unfold site_ok_def, elim disjE exE conjE)
    fix digits
    assume "digits_word digits" "site = ''blorp_f_'' @ digits"
    then show ?thesis using digit_facts(2) by (intro suffix_absent) (auto simp: digits_word_def)
  next
    assume "site = NO_COMPILED_CALLER"
    moreover have "re_sub FUNCTION_SUFFIX (\<lambda>_ _. []) NO_COMPILED_CALLER = NO_COMPILED_CALLER" by code_simp
    ultimately show ?thesis by simp
  qed
  with None show ?thesis by (simp add: site_label_def get_default_def)
next
  case (Some comment)
  with assms obtain digits where "digits_word digits" "site = ''blorp_f_'' @ digits" by (auto simp: site_ok_def)
  with suffix_removed [of digits comment] Some show ?thesis
    by (simp add: site_label_def get_default_def digits_word_def)
qed

lemma site_row_read:
  assumes "site_ok comments site" and "label = site_label comments site" and "arrow_free label"
    and "newline \<notin> set (label @ helper)" and "label \<noteq> []" and "\<not> is_space (hd label)"
    and "0 \<le> count" and "count \<le> all_count" and "all_count \<le> SHARE_LIMIT" and "0 \<le> bytes" and "0 \<le> resizes"
  shows "\<exists>line. table_row (label @ '' <- '' @ helper) (count, bytes, resizes) all_count = Inr line
    \<and> site_row line = Inr (Some ((get_default site comments site, helper, allocation_kind helper), (count, bytes)))"
proof -
  let ?label = "label @ '' <- '' @ helper"
  have n: "count \<le> max all_count 1" "max all_count 1 \<le> SHARE_LIMIT" using assms(8,9) by (simp_all add: SHARE_LIMIT_def)
  obtain n1 n2 w2 n3 n4 where w2: "w2 \<noteq> []" "\<forall>c \<in> set w2. is_digit c \<or> c = CHR ''.''" and pos: "0 < n2" "0 < n3" "0 < n4"
    and row: "table_row ?label (count, bytes, resizes) all_count =
      Inr (site_line n1 (show_nat (nat count)) n2 w2 n3 (show_nat (nat bytes)) n4 (show_nat (nat resizes)) 2 ?label)"
    by (rule table_row_line [OF assms(7) n(1) refl n(2) assms(10,11)])
  let ?line = "site_line n1 (show_nat (nat count)) n2 w2 n3 (show_nat (nat bytes)) n4 (show_nat (nat resizes)) 2 ?label"
  have "newline \<notin> set ?label" "?label = [] \<or> \<not> is_space (hd ?label)" using assms(4,5,6) by auto
  from site_line_groups [OF show_nat_digits_word w2 show_nat_digits_word show_nat_digits_word pos _ this]
  obtain m where m: "re_match SITE_LINE ?line = Some m" "grp ?line m 1 = show_nat (nat count)"
      "grp ?line m 3 = show_nat (nat bytes)" "grp ?line m 5 = ?label"
    by (metis zero_less_numeral)
  have "site_row ?line = Inr (Some ((get_default site comments site, helper, allocation_kind helper), (count, bytes)))"
    using m assms(7,10) partition_arrow_label [OF assms(3), of helper] label_name [OF assms(1)]
    by (simp add: site_row_def assms(2))
  with row show ?thesis by blast
qed

text \<open>C30: the report reads back what \<^verbatim>\<open>allocation-sites\<close> prints. A row printed for a site, a helper and its
  totals is matched by the report's pattern, and gives the count and the bytes, the helper with its data kind, and
  the name of the site without the number in parentheses; this for labels on one line that do not begin with white
  space and in which the separator does not occur.\<close>

theorem site_row_roundtrip:
  assumes "site_ok comments site" and "label = site_label comments site" and "arrow_free label"
    and "newline \<notin> set (label @ helper)" and "label \<noteq> []" and "\<not> is_space (hd label)"
    and "0 \<le> count" and "count \<le> all_count" and "all_count \<le> SHARE_LIMIT" and "0 \<le> bytes" and "0 \<le> resizes"
  shows "\<exists>line. table_row (label @ '' <- '' @ helper) (count, bytes, resizes) all_count = Inr line
    \<and> site_row line = Inr (Some ((get_default site comments site, helper, allocation_kind helper), (count, bytes)))"
  by (rule site_row_read [OF assms])

theorem site_row_roundtrip_witness:
  "\<exists>line. table_row ''list.map (blorp_f_7) <- blorp_list_append_I'' (3, 96, 0) 4 = Inr line
    \<and> site_row line = Inr (Some ((''list.map'', ''blorp_list_append_I'', ''List''), (3, 96)))"
proof -
  let ?comments = "[(''blorp_f_7'', ''list.map'')]" and ?label = "''list.map (blorp_f_7)''"
  have ok: "site_ok ?comments ''blorp_f_7''" by (auto simp: site_ok_def digits_word_def is_digit_def intro!: exI [of _ "''7''"])
  have l: "?label = site_label ?comments ''blorp_f_7''" by code_simp
  have a: "arrow_free ?label" by (simp add: arrow_free_def starts_at_def le_Suc_eq)
  have k: "allocation_kind ''blorp_list_append_I'' = ''List''" by code_simp
  have lim: "(4 :: int) \<le> SHARE_LIMIT" by (simp add: SHARE_LIMIT_def)
  have "\<exists>line. table_row (?label @ '' <- '' @ ''blorp_list_append_I'') (3, 96, 0) 4 = Inr line
    \<and> site_row line = Inr (Some ((get_default ''blorp_f_7'' ?comments ''blorp_f_7'', ''blorp_list_append_I'', allocation_kind ''blorp_list_append_I''), (3, 96)))"
    by (rule site_row_roundtrip [OF ok l a]) (simp_all add: lim is_space_def)
  then show ?thesis by (simp add: k get_default_def del: table_row_def)
qed

section \<open>The table\<close>

text \<open>The entries of the table that can be read back.\<close>

definition printable :: "(string, string) dict \<Rightarrow> int \<Rightarrow> (string \<times> string) \<times> triple \<Rightarrow> bool" where
  "printable comments all_count entry \<longleftrightarrow>
     (let ((site, helper), (count, bytes, resizes)) = entry; label = site_label comments site in
      site_ok comments site \<and> arrow_free label \<and> newline \<notin> set (label @ helper) \<and> label \<noteq> [] \<and> \<not> is_space (hd label)
      \<and> 0 \<le> count \<and> count \<le> all_count \<and> 0 \<le> bytes \<and> 0 \<le> resizes)"

definition read_entry :: "(string, string) dict \<Rightarrow> (string \<times> string) \<times> triple \<Rightarrow> (string \<times> string \<times> string) \<times> cell2" where
  "read_entry comments entry =
     (let ((site, helper), (count, bytes, resizes)) = entry
      in ((get_default site comments site, helper, allocation_kind helper), (count, bytes)))"

abbreviation helper_label :: "(string, string) dict \<Rightarrow> string \<times> string \<Rightarrow> string" where
  "helper_label comments \<equiv> \<lambda>key. site_label comments (fst key) @ '' <- '' @ snd key"

lemma entry_read:
  assumes "printable comments all_count entry" and "all_count \<le> SHARE_LIMIT"
  shows "\<exists>line. table_row (helper_label comments (fst entry)) (snd entry) all_count = Inr line
    \<and> site_row line = Inr (Some (read_entry comments entry))"
proof -
  obtain site helper count bytes resizes where e: "entry = ((site, helper), (count, bytes, resizes))" by (metis prod.exhaust)
  have "\<exists>line. table_row (site_label comments site @ '' <- '' @ helper) (count, bytes, resizes) all_count = Inr line
    \<and> site_row line = Inr (Some ((get_default site comments site, helper, allocation_kind helper), (count, bytes)))"
    using assms by (intro site_row_read [OF _ refl]) (simp_all add: printable_def e Let_def)
  then show ?thesis by (simp add: e read_entry_def)
qed

lemma entries_read:
  assumes "list_all (printable comments all_count) entries" and "all_count \<le> SHARE_LIMIT"
  shows "\<exists>lines. mapE (\<lambda>(k, t). table_row (helper_label comments k) t all_count) entries = Inr lines
    \<and> mapE site_row lines = Inr (map (\<lambda>e. Some (read_entry comments e)) entries)"
  using assms(1)
proof (induction entries)
  case (Cons e entries)
  then obtain lines where "mapE (\<lambda>(k, t). table_row (helper_label comments k) t all_count) entries = Inr lines"
    and "mapE site_row lines = Inr (map (\<lambda>e. Some (read_entry comments e)) entries)" by auto
  moreover obtain l where "table_row (helper_label comments (fst e)) (snd e) all_count = Inr l"
    and "site_row l = Inr (Some (read_entry comments e))"
    using entry_read [OF _ assms(2), of comments e] Cons.prems by (simp only: list.pred_inject) blast
  ultimately show ?case by (intro exI [of _ "l # lines"]) (simp add: case_prod_beta')
qed simp

lemma mapE_append: "mapE f (xs @ ys) = bindE (mapE f xs) (\<lambda>us. bindE (mapE f ys) (\<lambda>vs. Inr (us @ vs)))"
  by (induction xs) (auto simp: bindE_def split: sum.splits)

lemma sort_key_all: "list_all P (sort_key f xs) = list_all P xs"
  by (simp add: list_all_iff)

definition helper_title :: string where
  "helper_title = ''By site and immediate helper''"

definition site_header :: string where
  "site_header = rjust 12 ''allocs'' @ '' '' @ rjust 6 ''%'' @ '' '' @ rjust 14 ''bytes'' @ '' '' @ rjust 10 ''resizes'' @ ''  site''"

lemma other_lines: "site_row helper_title = Inr None" "site_row [] = Inr None" "site_row site_header = Inr None"
  by code_simp+

lemma map_filter_Some: "List.map_filter (\<lambda>x. x) (map (\<lambda>e. Some (f e)) es) = map f es"
  by (induction es) (simp_all add: map_filter_simps)

lemma helper_table_read:
  assumes "list_all (printable comments all_count) entries" and "all_count \<le> SHARE_LIMIT" and "int (length entries) \<le> limit"
  obtains lines found where "print_table helper_title entries (helper_label comments) limit all_count = Inr lines"
    and "mapE site_row lines = Inr found"
    and "List.map_filter (\<lambda>x. x) found = map (read_entry comments) (sort_key (\<lambda>(k, t). (- fst t, k)) entries)"
proof -
  let ?es = "sort_key (\<lambda>(k, t). (- fst t, k)) entries"
  have "0 \<le> limit" using assms(3) by linarith
  then have slice: "pyslice ?es 0 limit = ?es" using assms(3) by (simp add: pyslice_take)
  have "list_all (printable comments all_count) ?es" using assms(1) by (simp add: sort_key_all)
  from entries_read [OF this assms(2)] obtain rows
    where rows: "mapE (\<lambda>(k, t). table_row (helper_label comments k) t all_count) ?es = Inr rows"
    and read: "mapE site_row rows = Inr (map (\<lambda>e. Some (read_entry comments e)) ?es)" by blast
  show ?thesis
  proof
    show "print_table helper_title entries (helper_label comments) limit all_count = Inr ([helper_title, site_header] @ rows @ [[]])"
      using rows slice by (simp add: print_table_def site_header_def Let_def)
    show "mapE site_row ([helper_title, site_header] @ rows @ [[]]) = Inr ([None, None] @ map (\<lambda>e. Some (read_entry comments e)) ?es @ [None])"
      unfolding mapE_append using read by (simp add: other_lines)
    show "List.map_filter (\<lambda>x. x) ([None, None] @ map (\<lambda>e. Some (read_entry comments e)) ?es @ [None]) = map (read_entry comments) ?es"
      using map_filter_Some [of "read_entry comments" ?es] by (simp add: map_filter_def)
  qed
qed

lemma sum_insort_key: "sum_list (map f (insort_key g x xs)) = f x + sum_list (map f xs)" for f :: "'a \<Rightarrow> int"
  by (induction xs) auto

lemma sum_sort_key: "sum_list (map f (sort_key g xs)) = sum_list (map f xs)" for f :: "'a \<Rightarrow> int"
  by (induction xs) (simp_all add: sum_insort_key)

text \<open>C4: of the lines of the table by site and helper, printed in full, the report reads cells whose allocations and
  bytes by data kind add up to those of all stacks in the report that the measured program wrote.\<close>

theorem allocations_read_back:
  assumes "classified sites names = Inr rows"
    and "all_count = sum_list (map (\<lambda>(count, bytes, resizes, resized, frames). count) sites)"
    and "list_all (printable comments all_count) (by_key (\<lambda>key. key) rows)"
    and "all_count \<le> SHARE_LIMIT" and "int (length (by_key (\<lambda>key. key) rows)) \<le> limit"
  shows "\<exists>lines found. print_table helper_title (by_key (\<lambda>key. key) rows) (helper_label comments) limit all_count = Inr lines
    \<and> mapE site_row lines = Inr found
    \<and> sum_list (map (\<lambda>kv. fst (snd kv)) (sum_cells (map (\<lambda>((f, h, k), c). (k, c)) (List.map_filter (\<lambda>x. x) found)))) = all_count
    \<and> sum_list (map (\<lambda>kv. snd (snd kv)) (sum_cells (map (\<lambda>((f, h, k), c). (k, c)) (List.map_filter (\<lambda>x. x) found))))
        = sum_list (map (\<lambda>(count, bytes, resizes, resized, frames). bytes) sites)"
proof -
  let ?entries = "by_key (\<lambda>key. key) rows"
  let ?es = "sort_key (\<lambda>(k, t). (- fst t, k)) ?entries"
  obtain lines found where printed: "print_table helper_title ?entries (helper_label comments) limit all_count = Inr lines"
    and found: "mapE site_row lines = Inr found" and cells: "List.map_filter (\<lambda>x. x) found = map (read_entry comments) ?es"
    by (rule helper_table_read [OF assms(3-5)])
  have "table_total ?entries = (all_count, sum_list (map (\<lambda>(count, bytes, resizes, resized, frames). bytes) sites),
      sum_list (map (\<lambda>(count, bytes, resizes, resized, frames). resizes) sites))"
    unfolding assms(2) using tables_total [OF assms(1), of "\<lambda>key. key"] by simp
  then have "sum_list (map (\<lambda>kv. fst (snd kv)) ?entries) = all_count"
    and "sum_list (map (\<lambda>kv. fst (snd (snd kv))) ?entries) = sum_list (map (\<lambda>(count, bytes, resizes, resized, frames). bytes) sites)"
    by (simp_all add: table_total_def)
  moreover have "map (\<lambda>x. fst (snd x)) (map (\<lambda>((f, h, k), c). (k, c)) (map (read_entry comments) ?es)) = map (\<lambda>kv. fst (snd kv)) ?es"
    "map (\<lambda>x. snd (snd x)) (map (\<lambda>((f, h, k), c). (k, c)) (map (read_entry comments) ?es)) = map (\<lambda>kv. fst (snd (snd kv))) ?es"
    by (auto simp: read_entry_def split: prod.splits)
  ultimately have "sum_list (map (\<lambda>kv. fst (snd kv)) (sum_cells (map (\<lambda>((f, h, k), c). (k, c)) (List.map_filter (\<lambda>x. x) found)))) = all_count"
    "sum_list (map (\<lambda>kv. snd (snd kv)) (sum_cells (map (\<lambda>((f, h, k), c). (k, c)) (List.map_filter (\<lambda>x. x) found))))
        = sum_list (map (\<lambda>(count, bytes, resizes, resized, frames). bytes) sites)"
    by (simp_all only: cells sum_cells_calls sum_cells_units sum_sort_key)
  with printed found show ?thesis by blast
qed

theorem allocations_read_back_witness:
  "\<exists>lines found. print_table helper_title [((''blorp_f_7'', ''blorp_list_append_I''), (3, 96, 0)), ((''blorp_f_7'', ''(direct)''), (1, 8, 1))]
       (helper_label [(''blorp_f_7'', ''list.map'')]) 9 4 = Inr lines
    \<and> mapE site_row lines = Inr found
    \<and> sum_list (map (\<lambda>kv. fst (snd kv)) (sum_cells (map (\<lambda>((f, h, k), c). (k, c)) (List.map_filter (\<lambda>x. x) found)))) = 4"
proof -
  let ?sites = "[(3, 96, 0, 0, [2, 1]), (1, 8, 1, 16, [1])] :: site list"
  let ?rows = "[((''blorp_f_7'', ''blorp_list_append_I''), (3, 96, 0)), ((''blorp_f_7'', ''(direct)''), (1, 8, 1))] :: ((string \<times> string) \<times> triple) list"
  let ?comments = "[(''blorp_f_7'', ''list.map'')]"
  have r: "classified ?sites [(1, ''blorp_f_7''), (2, ''blorp_list_append_I'')] = Inr ?rows" by code_simp
  have e: "by_key (\<lambda>key. key) ?rows = ?rows" by code_simp
  have ok: "site_ok ?comments ''blorp_f_7''" by (auto simp: site_ok_def digits_word_def is_digit_def intro!: exI [of _ "''7''"])
  have l: "site_label ?comments ''blorp_f_7'' = ''list.map (blorp_f_7)''" by code_simp
  have a: "arrow_free ''list.map (blorp_f_7)''" by (simp add: arrow_free_def starts_at_def le_Suc_eq)
  have "list_all (printable ?comments 4) ?rows" by (simp add: printable_def ok l a is_space_def)
  then have p: "list_all (printable ?comments 4) (by_key (\<lambda>key. key) ?rows)" unfolding e .
  have lim: "(4 :: int) \<le> SHARE_LIMIT" "int (length (by_key (\<lambda>key. key) ?rows)) \<le> 9" unfolding e by (simp_all add: SHARE_LIMIT_def)
  have c: "4 = sum_list (map (\<lambda>(count, bytes, resizes, resized, frames). count) ?sites)" by simp
  from allocations_read_back [OF r c p lim] show ?thesis unfolding e by blast
qed

end
