(* ===== verification/Allocations_Stage.thy ===== *)
theory Allocations_Stage
  imports Sites_Table
begin

text \<open>
  The \<open>allocations\<close> stage as a whole: \<^verbatim>\<open>allocation-sites\<close> prints a total line and two tables, the report reads
  the file and has exactly the rows of the second table.
\<close>

section \<open>Lines of a file\<close>





section \<open>The total line\<close>




section \<open>Rows\<close>












section \<open>The file\<close>



















end
