(* ===== verification/Profile_Graph.thy ===== *)
theory Profile_Graph
  imports Sites_Table
begin

text \<open>
  The \<open>profile\<close> stage: the call graph that the sampler prints is a forest of frames in preorder, with the depth
  of a frame as its indentation. The stack walk of \<open>inclusive_samples\<close> computes from its text, for each
  symbol, the samples of the outermost frames with it.
\<close>

section \<open>Call forests\<close>

datatype frame = Frame (f_symbol: string) (f_samples: int) (f_callees: "frame list")

text \<open>The lines of a forest, the roots indented by \<open>d\<close> and each level by \<open>w\<close> more.\<close>

fun listing :: "nat \<Rightarrow> nat \<Rightarrow> frame list \<Rightarrow> (nat \<times> int \<times> string) list" where
  "listing w d [] = []"
| "listing w d (Frame s n cs # fs) = (d, n, s) # listing w (d + w) cs @ listing w d fs"

text \<open>The samples of the frames with a symbol that have no ancestor with it.\<close>

fun outer :: "string \<Rightarrow> frame list \<Rightarrow> int" where
  "outer symbol [] = 0"
| "outer symbol (Frame s n cs # fs) = (if s = symbol then n else outer symbol cs) + outer symbol fs"

text \<open>The samples of a frame include those of its callees.\<close>

fun consistent :: "frame list \<Rightarrow> bool" where
  "consistent [] \<longleftrightarrow> True"
| "consistent (Frame s n cs # fs) \<longleftrightarrow> sum_list (map f_samples cs) \<le> n \<and> consistent cs \<and> consistent fs"

lemma outer_bound: "consistent fs \<Longrightarrow> outer symbol fs \<le> sum_list (map f_samples fs)"
  by (induction symbol fs rule: outer.induct) auto

lemma dropWhile_weaken: "(\<And>x. P x \<Longrightarrow> Q x) \<Longrightarrow> dropWhile Q (dropWhile P xs) = dropWhile Q xs"
  by (induction xs) auto

abbreviation inside :: "nat \<Rightarrow> (nat \<times> string) list \<Rightarrow> (nat \<times> string) list" where
  "inside d stack \<equiv> dropWhile (\<lambda>(i, s). d \<le> i) stack"

lemma inside_idem: "d \<le> e \<Longrightarrow> inside d (inside e stack) = inside d stack"
  by (rule dropWhile_weaken) auto

text \<open>A forest adds its outermost frames whose symbols are not on the stack, and leaves on the stack what is
  outside it.\<close>

lemma visit_listing:
  assumes "0 < w"
  shows "inside d (fst (fold visit (listing w d fs) (stack, inclusive))) = inside d stack
    \<and> get_default 0 (snd (fold visit (listing w d fs) (stack, inclusive))) symbol = get_default 0 inclusive symbol
        + (if symbol \<in> snd ` set (inside d stack) then 0 else outer symbol fs)"
  using assms
proof (induction w d fs arbitrary: stack inclusive rule: listing.induct)
  case (2 w d s n cs fs)
  let ?base = "inside d stack"
  let ?inc = "if s \<in> snd ` set ?base then inclusive else add_count s n inclusive"
  obtain st inc where mid: "fold visit (listing w (d + w) cs) ((d, s) # ?base, ?inc) = (st, inc)" by fastforce
  from "2.IH"(1) [OF "2.prems", of "(d, s) # ?base" ?inc] "2.prems"
  have st: "inside (d + w) st = (d, s) # ?base"
    and inc: "get_default 0 inc symbol = get_default 0 ?inc symbol
      + (if symbol \<in> insert s (snd ` set ?base) then 0 else outer symbol cs)"
    unfolding mid by auto
  have under: "inside d st = ?base"
    using inside_idem [of d "d + w" st] inside_idem [of d d stack] by (simp add: st)
  have "fold visit (listing w d (Frame s n cs # fs)) (stack, inclusive) = fold visit (listing w d fs) (st, inc)"
    using mid by (simp add: visit_def Let_def)
  with "2.IH"(2) [OF "2.prems", of st inc] show ?case
    by (auto simp: under inc add_count_get)
qed simp

section \<open>Lines\<close>

text \<open>A line of the printed graph: a margin, the samples, the symbol and anything after white space.\<close>

definition line_shows :: "string \<Rightarrow> nat \<times> int \<times> string \<Rightarrow> bool" where
  "line_shows line node \<longleftrightarrow>
     (let (indent, count, symbol) = node in
      \<exists>margin rest. line = margin @ show_nat (nat count) @ '' '' @ symbol @ rest
        \<and> length margin = indent \<and> set margin \<subseteq> set ''+!:| '' \<and> 0 \<le> count
        \<and> symbol \<noteq> [] \<and> list_all (\<lambda>c. \<not> is_space c) symbol \<and> (rest = [] \<or> is_space (hd rest)))"

lemma margin_split:
  obtains n marks where "margin = blanks n @ marks" and "marks = [] \<or> hd marks \<noteq> CHR '' ''"
proof
  let ?n = "length (takeWhile (\<lambda>c. c = CHR '' '') margin)"
  have "takeWhile (\<lambda>c. c = CHR '' '') margin = blanks ?n"
    by (rule replicate_length_same [symmetric]) (blast dest: set_takeWhileD)
  then show "margin = blanks ?n @ dropWhile (\<lambda>c. c = CHR '' '') margin" by (metis takeWhile_dropWhile_id)
  show "dropWhile (\<lambda>c. c = CHR '' '') margin = [] \<or> hd (dropWhile (\<lambda>c. c = CHR '' '') margin) \<noteq> CHR '' ''"
    using hd_dropWhile [of "\<lambda>c. c = CHR '' ''" margin] by blast
qed

lemma graph_node_line:
  assumes "line_shows line (indent, count, symbol)"
  shows "graph_node line = Inr (Some (indent, count, symbol))"
proof -
  from assms obtain margin rest where line: "line = margin @ show_nat (nat count) @ '' '' @ symbol @ rest"
    and indent: "length margin = indent" and ms: "set margin \<subseteq> set ''+!:| ''" and count: "0 \<le> count"
    and sym: "symbol \<noteq> []" "\<forall>c \<in> set symbol. \<not> is_space c" and rest: "rest = [] \<or> is_space (hd rest)"
    by (auto simp: line_shows_def list_all_iff)
  obtain n marks where m: "margin = blanks n @ marks" and marks: "marks = [] \<or> hd marks \<noteq> CHR '' ''"
    by (rule margin_split)
  let ?w = "show_nat (nat count)"
  have w: "digits_word ?w" by (rule show_nat_digits_word)
  have ns: "\<forall>c \<in> set symbol. \<not> is_space c" and nr: "rest = [] \<or> \<not> \<not> is_space (hd rest)" using sym rest by auto
  have dig: "c \<notin> set ''+!:| ''" if "is_digit c" for c using that by (auto simp: is_digit_def)
  have hdm: "marks @ (?w @ x) @ t = [] \<or> \<not> is_space (hd (marks @ (?w @ x) @ t))" for x t
    using marks ms digits_word_hd [OF w] by (cases marks) (auto simp: m is_space_def)
  have hdw: "(?w @ x) @ t = [] \<or> \<not> hd ((?w @ x) @ t) \<in> set ''+!:| ''" for x t
    using w dig by (cases ?w) (auto simp: digits_word_def)
  have mk: "\<forall>x \<in> set marks. x \<in> set ''+!:| ''" using ms by (auto simp: m)
  have sp: "\<forall>x \<in> set (blanks n). is_space x" by (simp add: is_space_def)
  have hds: "('' '' @ symbol) @ rest \<noteq> []" "\<not> is_digit (hd (('' '' @ symbol) @ rest))" by (auto simp: is_digit_def)
  let ?k = "length (margin @ ?w @ '' '')"
  have "leads NODE [] ([] @ (blanks n @ marks) @ ?w @ '' '' @ symbol) rest []
      [(3, ?k, ?k + length symbol), (2, length margin, length margin + length ?w), (1, 0, length margin)]"
    unfolding NODE_def seqs.simps
    by (rule leads_eq [OF leads_Seq [OF leads_TextStart leads_Seq [OF leads_Grp [OF leads_Seq [OF leads_Star [OF sp hdm]
      leads_Star [OF mk hdw]]] leads_Seq [OF leads_digits [OF w hds] leads_Seq [OF leads_lit leads_Grp [OF leads_Plus [OF sym(1) ns nr]]]]]]])
      (simp add: m)
  from leads_re_match [OF this]
  have "re_match NODE line = Some \<lparr>m_start = 0, m_end = ?k + length symbol,
      m_caps = [(3, ?k, ?k + length symbol), (2, length margin, length margin + length ?w), (1, 0, length margin)]\<rparr>"
    by (simp add: line m)
  moreover have "cut line ?k (?k + length symbol) = symbol" "cut line (length margin) (length margin + length ?w) = ?w"
      "cut line 0 (length margin) = margin"
    using cut_middle [of "margin @ ?w @ '' ''" symbol rest] cut_middle [of margin ?w] cut_middle [of "[]" margin]
    by (simp_all add: line)
  ultimately show ?thesis using count indent by (simp add: graph_node_def grp_def group_def)
qed

text \<open>A line of a graph is no header and no footer.\<close>

definition graph_header :: "string \<Rightarrow> bool" where
  "graph_header line = starts_with line ''Call graph:''"

definition graph_footer :: "string \<Rightarrow> bool" where
  "graph_footer line = starts_with line ''Total number in stack''"

lemma line_no_header:
  assumes "line_shows line node"
  shows "\<not> graph_header line" and "\<not> graph_footer line"
proof -
  from assms obtain margin count t where line: "line = margin @ show_nat (nat count) @ t" and ms: "set margin \<subseteq> set ''+!:| ''"
    by (cases node) (auto simp: line_shows_def)
  have "line \<noteq> [] \<and> (hd line \<in> set ''+!:| '' \<or> is_digit (hd line))"
    using show_nat_digits_word [of "nat count"] ms
    by (cases margin; cases "show_nat (nat count)") (auto simp: line digits_word_def)
  then show "\<not> graph_header line" and "\<not> graph_footer line"
    by (cases line; auto simp: graph_header_def graph_footer_def is_digit_def)+
qed

lemma graph_nodes_before:
  assumes "list_all (\<lambda>line. \<not> graph_header line \<and> \<not> graph_footer line) earlier" and "graph_header header"
  shows "graph_nodes False (earlier @ header # lines) = graph_nodes True lines"
  using assms by (induction earlier) (auto simp: graph_header_def graph_footer_def)

lemma graph_nodes_lines:
  assumes "list_all2 line_shows lines nodes" and "graph_footer footer"
  shows "graph_nodes True (lines @ footer # after) = Inr nodes"
  using assms(1)
proof (induction rule: list_all2_induct)
  case Nil
  have "\<not> graph_header footer"
    using assms(2) by (cases footer) (auto simp: graph_header_def graph_footer_def)
  with assms(2) show ?case by (simp add: graph_header_def graph_footer_def)
next
  case (Cons line lines node nodes)
  then show ?case
    using line_no_header [OF Cons.hyps(1)] graph_node_line [of line] by (cases node) (simp add: graph_header_def graph_footer_def)
qed

text \<open>C5: from the text of the sampler, whose call graph lists a forest of frames in preorder, the inclusive samples
  are, under each symbol, those of its outermost frames, so a recursive function is counted once per path; and
  when the samples of every frame cover those of its callees, no function is given more samples than the roots have.\<close>

theorem inclusive_samples_forest:
  assumes "splitlines content = earlier @ header # lines @ footer # after"
    and "list_all (\<lambda>line. \<not> graph_header line \<and> \<not> graph_footer line) earlier"
    and "graph_header header" and "graph_footer footer"
    and "list_all2 line_shows lines (listing w d forest)" and "0 < w"
  shows "\<exists>inclusive. inclusive_samples content = Inr inclusive
    \<and> get_default 0 inclusive symbol = outer symbol forest
    \<and> (consistent forest \<longrightarrow> get_default 0 inclusive symbol \<le> sum_list (map f_samples forest))"
proof -
  have "graph_nodes False (splitlines content) = Inr (listing w d forest)"
    unfolding assms(1) graph_nodes_before [OF assms(2,3)] by (rule graph_nodes_lines [OF assms(5,4)])
  then have "inclusive_samples content = Inr (snd (fold visit (listing w d forest) ([], [])))"
    by (simp add: inclusive_samples_def)
  moreover have "get_default 0 (snd (fold visit (listing w d forest) ([], []))) symbol = outer symbol forest"
    using visit_listing [OF assms(6), of d forest "[]" "[]" symbol] by (simp add: get_default_def)
  ultimately show ?thesis using outer_bound by auto
qed

text \<open>A recursive function, once below itself and beside a leaf.\<close>

theorem inclusive_samples_forest_witness:
  "\<exists>inclusive. inclusive_samples (join [newline] [''Sampling'', ''Call graph:'', ''    9 Thread_1'', ''    + 8 f  (in a)'', ''    + ! 3 f  (in a)'',
       ''    + 1 g'', ''Total number in stack'', ''x'']) = Inr inclusive
    \<and> get_default 0 inclusive ''f'' = 8 \<and> get_default 0 inclusive ''f'' \<le> 9"
proof -
  let ?forest = "[Frame ''Thread_1'' 9 [Frame ''f'' 8 [Frame ''f'' 3 []], Frame ''g'' 1 []]]"
  let ?lines = "[''    9 Thread_1'', ''    + 8 f  (in a)'', ''    + ! 3 f  (in a)'', ''    + 1 g'']"
  let ?content = "join [newline] [''Sampling'', ''Call graph:'', ''    9 Thread_1'', ''    + 8 f  (in a)'', ''    + ! 3 f  (in a)'',
       ''    + 1 g'', ''Total number in stack'', ''x'']"
  have split: "splitlines ?content = [''Sampling''] @ ''Call graph:'' # ?lines @ ''Total number in stack'' # [''x'']" by code_simp
  have shows_at: "line_shows (margin @ digits @ '' '' @ symbol @ rest) (indent, n, symbol)"
    if "show_nat (nat n) = digits" "length margin = indent" "set margin \<subseteq> set ''+!:| ''" "0 \<le> n" "symbol \<noteq> []"
      "list_all (\<lambda>c. \<not> is_space c) symbol" "rest = [] \<or> is_space (hd rest)"
    for margin digits rest symbol :: string and n :: int and indent :: nat
    using that unfolding line_shows_def by auto
  have digit: "show_nat 9 = ''9''" "show_nat 8 = ''8''" "show_nat 3 = ''3''" "show_nat (Suc 0) = ''1''" by code_simp+
  have "list_all2 line_shows [''    '' @ ''9'' @ '' '' @ ''Thread_1'' @ [], ''    + '' @ ''8'' @ '' '' @ ''f'' @ ''  (in a)'',
      ''    + ! '' @ ''3'' @ '' '' @ ''f'' @ ''  (in a)'', ''    + '' @ ''1'' @ '' '' @ ''g'' @ []]
      [(4, 9, ''Thread_1''), (6, 8, ''f''), (8, 3, ''f''), (6, 1, ''g'')]"
    by (intro list.rel_intros shows_at) (simp_all add: digit is_space_def)
  then have lines: "list_all2 line_shows ?lines (listing 2 4 ?forest)" by simp
  have "\<exists>inclusive. inclusive_samples ?content = Inr inclusive \<and> get_default 0 inclusive ''f'' = outer ''f'' ?forest
    \<and> (consistent ?forest \<longrightarrow> get_default 0 inclusive ''f'' \<le> sum_list (map f_samples ?forest))"
    by (rule inclusive_samples_forest [OF split _ _ _ lines]) (simp_all add: graph_header_def graph_footer_def)
  then show ?thesis by simp
qed

section \<open>Classes\<close>

text \<open>The frame that a line of the section by top of stack lists, with its samples.\<close>

definition listed_frame :: "(string, string) dict \<Rightarrow> string \<Rightarrow> (string \<times> int) option" where
  "listed_frame labels line =
     (case re_match FRAME_LINE line of
        None \<Rightarrow> None
      | Some m \<Rightarrow>
          (case py_int (grp line m 3) of
             Inl e \<Rightarrow> None
           | Inr n \<Rightarrow> Some (get_default (grp line m 1) labels (grp line m 1) @ '' (in '' @ grp line m 2 @ '')'', n)))"

definition unclassified :: "string \<Rightarrow> bool" where
  "unclassified frame = list_all (\<lambda>(label, pattern). re_search pattern frame = None) PROFILE_CLASSES"

lemma classify_other: "classify_frame frame = ''other'' \<longleftrightarrow> unclassified frame"
proof (cases "filter (\<lambda>(label, pattern). re_search pattern frame \<noteq> None) PROFILE_CLASSES")
  case Nil
  then show ?thesis by (auto simp: classify_frame_def unclassified_def list_all_iff filter_empty_conv)
next
  case (Cons hit hits)
  then have "hit \<in> set (filter (\<lambda>(label, pattern). re_search pattern frame \<noteq> None) PROFILE_CLASSES)" by simp
  then have hit: "hit \<in> set PROFILE_CLASSES" "re_search (snd hit) frame \<noteq> None" by auto
  then have "fst hit \<noteq> ''other''" unfolding PROFILE_CLASSES_def by auto
  with Cons hit show ?thesis by (cases hit) (force simp: classify_frame_def unclassified_def list_all_iff)
qed

lemma frame_class_listed:
  "frame_class labels line = Inr x \<Longrightarrow> x = map_option (\<lambda>(frame, n). (classify_frame frame, n)) (listed_frame labels line)"
  by (auto simp: frame_class_def listed_frame_def Let_def bindE_def split: option.splits sum.splits)

lemma frames_listed:
  assumes "mapE (frame_class labels) lines = Inr found"
  shows "List.map_filter (\<lambda>x. x) found = map (\<lambda>(frame, n). (classify_frame frame, n)) (List.map_filter (listed_frame labels) lines)"
  using assms
proof (induction lines arbitrary: found)
  case (Cons line lines)
  from Cons.prems obtain x xs where found: "found = x # xs" and x: "frame_class labels line = Inr x"
    and xs: "mapE (frame_class labels) lines = Inr xs"
    by (auto simp: bindE_def split: sum.splits)
  show ?case
    unfolding found using Cons.IH [OF xs] frame_class_listed [OF x]
    by (auto simp: List.map_filter_simps split: option.splits)
qed (simp add: List.map_filter_simps)

text \<open>C39: the classes of the profile hold the listed samples and no others: their sum is the number of listed samples,
  and \<open>other\<close> has those of the listed frames that no pattern matches; the remainder that the sampler did not
  list is in no class.\<close>

theorem classes_hold_listed:
  assumes "mapE (frame_class labels) lines = Inr found"
  shows "total_of (counted (List.map_filter (\<lambda>x. x) found)) = total_of (List.map_filter (listed_frame labels) lines)
    \<and> get_default 0 (counted (List.map_filter (\<lambda>x. x) found)) ''other''
        = total_of (filter (\<lambda>(frame, n). unclassified frame) (List.map_filter (listed_frame labels) lines))"
  unfolding frames_listed [OF assms] counted_total counted_entry
  by (simp add: o_def case_prod_beta' filter_map classify_other)

text \<open>Of a frame of the allocator and one of a compiled function, only the second is in \<open>other\<close>.\<close>

theorem classes_hold_listed_witness:
  "\<exists>found. mapE (frame_class [(''blorp_f_3'', ''list.map'')]) [''        malloc  (in libc)        12'', ''        blorp_f_3  (in a)        30''] = Inr found
     \<and> total_of (counted (List.map_filter (\<lambda>x. x) found)) = 42
     \<and> get_default 0 (counted (List.map_filter (\<lambda>x. x) found)) ''other'' = 30"
proof -
  let ?labels = "[(''blorp_f_3'', ''list.map'')]"
  let ?lines = "[''        malloc  (in libc)        12'', ''        blorp_f_3  (in a)        30'']"
  have f: "mapE (frame_class ?labels) ?lines = Inr [Some (''allocator'', 12), Some (''other'', 30)]" by code_simp
  have l: "List.map_filter (listed_frame ?labels) ?lines = [(''malloc (in libc)'', 12), (''list.map (in a)'', 30)]" by code_simp
  have u: "\<not> unclassified ''malloc (in libc)''" "unclassified ''list.map (in a)''" by code_simp+
  show ?thesis using classes_hold_listed [OF f] unfolding l f by (simp add: u)
qed

end
