(* ===== verification/Timing.thy ===== *)
theory Timing
  imports Report_Theorems
begin

text \<open>
  The \<open>timing\<close> stage: the best run of a build is the minimum over its rows, for the seconds (floats, where a NaN
  compares with nothing), the cycles and the instructions.
\<close>

section \<open>Minimum\<close>

text \<open>A comparison under which the loop of \<open>min\<close> finds an element that none is smaller than.\<close>

locale comparison_order =
  fixes smaller :: "'a \<Rightarrow> 'a \<Rightarrow> bool"
  assumes irrefl: "\<not> smaller x x"
    and step: "smaller y b \<Longrightarrow> \<not> smaller x b \<Longrightarrow> \<not> smaller x y"
begin

abbreviation least :: "'a list \<Rightarrow> 'a \<Rightarrow> 'a" where
  "least xs b \<equiv> fold (\<lambda>y best. if smaller y best then y else best) xs b"

lemma least_in: "least xs b \<in> insert b (set xs)"
proof (induction xs arbitrary: b)
  case (Cons y xs)
  show ?case using Cons [of "if smaller y b then y else b"] by auto
qed simp

lemma least_below: "\<forall>x \<in> S. \<not> smaller x b \<Longrightarrow> x \<in> S \<union> insert b (set xs) \<Longrightarrow> \<not> smaller x (least xs b)"
proof (induction xs arbitrary: b S)
  case (Cons y xs)
  let ?b = "if smaller y b then y else b"
  have "\<forall>x \<in> insert b (insert y S). \<not> smaller x ?b"
    using Cons.prems(1) irrefl step [of y b] by auto
  from Cons.IH [OF this] Cons.prems(2) show ?case by auto
qed (use irrefl in auto)

lemma first_min_least:
  assumes "xs \<noteq> []"
  obtains m where "first_min smaller xs = Inr m" and "m \<in> set xs" and "\<And>x. x \<in> set xs \<Longrightarrow> \<not> smaller x m"
proof -
  obtain b ys where xs: "xs = b # ys" using assms by (cases xs) auto
  show ?thesis
    by (rule that [of "least ys b"]) (use least_in [of ys b] least_below [of "{}" b _ ys] in \<open>auto simp: xs\<close>)
qed

end

interpretation seconds: comparison_order fless
proof
  show "\<not> fless x x" for x by (cases x) auto
  show "fless y b \<Longrightarrow> \<not> fless x b \<Longrightarrow> \<not> fless x y" for x y b by (cases x; cases y; cases b) auto
qed

interpretation integers: comparison_order "(<) :: int \<Rightarrow> int \<Rightarrow> bool"
  by unfold_locales auto

section \<open>Best of each build\<close>

text \<open>A best cell of a build.\<close>

definition best_cell :: "run_row list \<Rightarrow> string \<Rightarrow> pyfloat \<times> int \<times> int \<Rightarrow> bool" where
  "best_cell rows build best3 \<longleftrightarrow>
     (let (s, c, i) = best3; mine = {r \<in> set rows. r_build r = build} in
      s \<in> r_seconds ` mine \<and> c \<in> r_cycles ` mine \<and> i \<in> r_instructions ` mine
      \<and> (\<forall>r \<in> mine. \<not> fless (r_seconds r) s \<and> c \<le> r_cycles r \<and> i \<le> r_instructions r))"

lemma best_of_build:
  assumes "build \<in> r_build ` set rows"
  obtains best3 where "(let mine = filter (\<lambda>r. r_build r = build) rows in
       bindE (first_min fless (map r_seconds mine)) (\<lambda>s.
       bindE (first_min (<) (map r_cycles mine)) (\<lambda>c.
       bindE (first_min (<) (map r_instructions mine)) (\<lambda>i. Inr (build, (s, c, i)))))) = Inr (build, best3)"
    and "best_cell rows build best3"
proof -
  let ?mine = "filter (\<lambda>r. r_build r = build) rows"
  have ne: "map r_seconds ?mine \<noteq> []" "map r_cycles ?mine \<noteq> []" "map r_instructions ?mine \<noteq> []"
    using assms by (auto simp: filter_empty_conv)
  obtain s where s: "first_min fless (map r_seconds ?mine) = Inr s" "s \<in> set (map r_seconds ?mine)"
      "\<And>x. x \<in> set (map r_seconds ?mine) \<Longrightarrow> \<not> fless x s"
    using seconds.first_min_least [OF ne(1)] by blast
  obtain c where c: "first_min (<) (map r_cycles ?mine) = Inr c" "c \<in> set (map r_cycles ?mine)"
      "\<And>x. x \<in> set (map r_cycles ?mine) \<Longrightarrow> \<not> x < c"
    using integers.first_min_least [OF ne(2)] by blast
  obtain i where i: "first_min (<) (map r_instructions ?mine) = Inr i" "i \<in> set (map r_instructions ?mine)"
      "\<And>x. x \<in> set (map r_instructions ?mine) \<Longrightarrow> \<not> x < i"
    using integers.first_min_least [OF ne(3)] by blast
  have "best_cell rows build (s, c, i)"
    using s(2,3) c(2,3) i(2,3) by (force simp: best_cell_def not_less)
  moreover have "(let mine = ?mine in bindE (first_min fless (map r_seconds mine)) (\<lambda>s.
       bindE (first_min (<) (map r_cycles mine)) (\<lambda>c.
       bindE (first_min (<) (map r_instructions mine)) (\<lambda>i. Inr (build, (s, c, i)))))) = Inr (build, (s, c, i))"
    using s(1) c(1) i(1) by (simp add: Let_def)
  ultimately show ?thesis using that by blast
qed

lemma mapE_cells:
  assumes "\<And>b. b \<in> set bs \<Longrightarrow> \<exists>best3. f b = Inr (b, best3) \<and> Q b best3"
  shows "\<exists>d. mapE f bs = Inr d \<and> keys d = bs \<and> (\<forall>(b, best3) \<in> set d. Q b best3)"
  using assms
proof (induction bs)
  case (Cons b bs)
  then obtain d where "mapE f bs = Inr d" "keys d = bs" "\<forall>(b, best3) \<in> set d. Q b best3" by force
  moreover obtain best3 where "f b = Inr (b, best3)" "Q b best3" using Cons.prems [of b] by auto
  ultimately show ?case by (intro exI [of _ "(b, best3) # d"]) simp
qed simp

text \<open>C37: the best runs never fail to be computed, are listed once per build in alphabetical order, and hold for each
  build values that occur in its rows and that no row of the build undercuts.\<close>

theorem best_of_minimal:
  "\<exists>best. best_of rows = Inr best \<and> keys best = sort (remdups (map r_build rows))
     \<and> list_all (\<lambda>(build, best3). best_cell rows build best3) best"
proof -
  have "\<exists>d. best_of rows = Inr d \<and> keys d = sort (remdups (map r_build rows)) \<and> (\<forall>(b, best3) \<in> set d. best_cell rows b best3)"
    unfolding best_of_def
  proof (rule mapE_cells)
    fix b
    assume "b \<in> set (sort (remdups (map r_build rows)))"
    then have "b \<in> r_build ` set rows" by simp
    from best_of_build [OF this] show "\<exists>best3. (let mine = filter (\<lambda>r. r_build r = b) rows in
       bindE (first_min fless (map r_seconds mine)) (\<lambda>s.
       bindE (first_min (<) (map r_cycles mine)) (\<lambda>c.
       bindE (first_min (<) (map r_instructions mine)) (\<lambda>i. Inr (b, (s, c, i)))))) = Inr (b, best3) \<and> best_cell rows b best3" by blast
  qed
  then show ?thesis by (simp add: list_all_iff)
qed

section \<open>Pairs\<close>

text \<open>Floats other than NaN are ordered by their sort keys.\<close>

lemma fless_key: "x \<noteq> NaN \<Longrightarrow> y \<noteq> NaN \<Longrightarrow> fless x y \<longleftrightarrow> float_key x < float_key y"
  by (cases x; cases y) (auto simp: float_key_def less_prod_def)

lemma to_float_no_nan: "to_float x \<noteq> NaN"
  by (simp add: to_float_def Let_def)

lemma percent_less_no_nan: "percent_less (Fin q) \<noteq> NaN"
proof -
  have "fmul (Fin 100) y \<noteq> NaN" if "y \<noteq> NaN" for y using that by (cases y) (auto simp: to_float_no_nan)
  then show ?thesis using to_float_no_nan [of "1 - q"] by (simp add: percent_less_def)
qed

lemma int_div_finite:
  assumes "int_div m n = Inr q"
  obtains y where "q = Fin y"
proof (cases "to_float (of_int m / of_int n)")
  case (Fin y)
  with assms show ?thesis by (intro that [of y]) (simp add: int_div_def split: if_splits)
qed (use assms in \<open>simp_all add: int_div_def split: if_splits\<close>)

lemma pair_less_no_nan: "pair_less v = Inr x \<Longrightarrow> x \<noteq> NaN"
  using percent_less_no_nan by (auto simp: pair_less_def bindE_def split: sum.splits elim!: int_div_finite)

text \<open>At an index of a sorted list, as many elements are smaller as stand before it at most, and as many
  larger as stand after it.\<close>

lemma sorted_index_counts:
  fixes xs :: "'a :: linorder list"
  assumes "sorted xs" and "i < length xs"
  shows "length (filter (\<lambda>x. x < xs ! i) xs) \<le> i" and "length (filter (\<lambda>x. xs ! i < x) xs) \<le> length xs - Suc i"
proof -
  have split: "length (filter P xs) = length (filter P (take j xs)) + length (filter P (drop j xs))" for P j
    by (metis append_take_drop_id filter_append length_append)
  have "filter (\<lambda>x. x < xs ! i) (drop i xs) = []"
    using sorted_nth_mono [OF assms(1)] by (auto simp: filter_empty_conv in_set_conv_nth not_less)
  then show "length (filter (\<lambda>x. x < xs ! i) xs) \<le> i"
    using split [of _ i] length_filter_le [of "\<lambda>x. x < xs ! i" "take i xs"] by simp
  have "filter (\<lambda>x. xs ! i < x) (take (Suc i) xs) = []"
    using sorted_nth_mono [OF assms(1)] assms(2) by (auto simp: filter_empty_conv in_set_conv_nth not_less)
  then show "length (filter (\<lambda>x. xs ! i < x) xs) \<le> length xs - Suc i"
    using split [of _ "Suc i"] length_filter_le [of "\<lambda>x. xs ! i < x" "drop (Suc i) xs"] by simp
qed

text \<open>A lowest, a highest and a middle value of a list.\<close>

definition spread :: "pyfloat list \<Rightarrow> pyfloat \<Rightarrow> pyfloat \<Rightarrow> pyfloat \<Rightarrow> bool" where
  "spread shares lo hi mid \<longleftrightarrow>
     {lo, hi, mid} \<subseteq> set shares \<and> (\<forall>x \<in> set shares. \<not> fless x lo \<and> \<not> fless hi x)
     \<and> 2 * length (filter (\<lambda>x. fless x mid) shares) \<le> length shares
     \<and> 2 * length (filter (\<lambda>x. fless mid x) shares) \<le> length shares"

lemma spread_sorted:
  assumes "shares \<noteq> []" and "NaN \<notin> set shares" and "fewer = sort_key float_key shares"
  shows "spread shares (fewer ! 0) (last fewer) (fewer ! (length fewer div 2))"
proof -
  let ?ks = "map float_key fewer" and ?i = "length fewer div 2"
  have set: "set fewer = set shares" and len: "length fewer = length shares" using assms(3) by simp_all
  have sorted: "sorted ?ks" unfolding assms(3) by simp
  have i: "?i < length fewer" and ne: "fewer \<noteq> []" using assms(1) len by auto
  have less: "fless x y \<longleftrightarrow> float_key x < float_key y" if "x \<in> set shares" "y \<in> set shares" for x y
    using fless_key [of x y] assms(2) that by auto
  have ends: "float_key (fewer ! 0) \<le> float_key x \<and> float_key x \<le> float_key (last fewer)" if x: "x \<in> set shares" for x
  proof -
    obtain k where k: "k < length fewer" "x = fewer ! k" using x unfolding set [symmetric] by (auto simp: in_set_conv_nth)
    show ?thesis
      using sorted_nth_mono [OF sorted, of 0 k] sorted_nth_mono [OF sorted, of k "length fewer - 1"] k ne
      by (auto simp: last_conv_nth)
  qed
  have mem: "{fewer ! 0, last fewer, fewer ! ?i} \<subseteq> set shares" using i ne by (auto simp flip: set)
  have perm: "length (filter P shares) = length (filter P fewer)" for P
    by (simp add: assms(3) filter_sort)
  have keys: "length (filter (\<lambda>x. Q (float_key x)) fewer) = length (filter Q ?ks)" for Q
    by (simp add: filter_map o_def)
  have below: "length (filter (\<lambda>x. fless x (fewer ! ?i)) shares) = length (filter (\<lambda>k. k < ?ks ! ?i) ?ks)"
    and above: "length (filter (\<lambda>x. fless (fewer ! ?i) x) shares) = length (filter (\<lambda>k. ?ks ! ?i < k) ?ks)"
    unfolding perm keys [symmetric] using less mem i set
    by (auto intro!: arg_cong [where f = length] filter_cong)
  have "length (filter (\<lambda>x. fless x (fewer ! ?i)) shares) \<le> ?i"
    and "length (filter (\<lambda>x. fless (fewer ! ?i) x) shares) \<le> length fewer - Suc ?i"
    unfolding below above using sorted_index_counts [OF sorted, of ?i] i by (simp_all del: filter_map)
  then have "2 * length (filter (\<lambda>x. fless x (fewer ! ?i)) shares) \<le> length shares"
    and "2 * length (filter (\<lambda>x. fless (fewer ! ?i) x) shares) \<le> length shares" using len by linarith+
  with mem ends less show ?thesis unfolding spread_def by (auto simp: not_less)
qed

text \<open>C38: the line about pairs of runs with the same sample number shows the lowest, the highest and a middle value of
  the shares of the pairs, none of which is a NaN; without a pair, the stage stops with an \<open>IndexError\<close>.\<close>

theorem pairs_text_spread:
  assumes "mapE pair_less (map snd (filter (\<lambda>(n, v). length v = 2) (by_sample rows))) = Inr shares"
  shows "shares = [] \<and> pairs_text rows = Inl IndexError
    \<or> (\<exists>lo hi mid. spread shares lo hi mid \<and> NaN \<notin> set shares
        \<and> pairs_text rows = Inr (''Per pair (same sample number), the plain build used '' @ format_f 1 lo @ ''% to ''
              @ format_f 1 hi @ ''% fewer cycles, median '' @ format_f 1 mid @ ''%.'' @ [newline]))"
proof (cases "shares = []")
  case True
  with assms show ?thesis by (simp add: pairs_text_def list_index_def)
next
  case False
  let ?fewer = "sort_key float_key shares"
  have "NaN \<notin> set shares"
  proof
    assume "NaN \<in> set shares"
    then obtain i where i: "i < length shares" "shares ! i = NaN" by (auto simp: in_set_conv_nth)
    let ?vs = "map snd (filter (\<lambda>(n, v). length v = 2) (by_sample rows))"
    from assms have eq: "map pair_less ?vs = map Inr shares" unfolding mapE_Inr_iff .
    then have "length ?vs = length shares" by (metis length_map)
    with eq i have "pair_less (?vs ! i) = Inr NaN" by (metis nth_map)
    then show False using pair_less_no_nan by blast
  qed
  moreover have "?fewer \<noteq> []" using False by (metis length_0_conv length_sort)
  then have "pairs_text rows = Inr (''Per pair (same sample number), the plain build used '' @ format_f 1 (?fewer ! 0) @ ''% to ''
      @ format_f 1 (last ?fewer) @ ''% fewer cycles, median '' @ format_f 1 (?fewer ! (length ?fewer div 2)) @ ''%.'' @ [newline])"
    using assms False by (simp add: pairs_text_def list_index_def Let_def)
  ultimately show ?thesis using spread_sorted [OF False _ refl] by blast
qed

text \<open>One pair of runs, in which the plain build used no cycles.\<close>

theorem pairs_text_spread_witness:
  "\<exists>lo hi mid. spread [percent_less (Fin 0)] lo hi mid
     \<and> pairs_text [\<lparr>r_build = ''atomic'', r_sample = 1, r_load = [], r_seconds = Fin 2, r_cycles = 7, r_instructions = 9\<rparr>,
          \<lparr>r_build = ''plain'', r_sample = 1, r_load = [], r_seconds = Fin 1, r_cycles = 0, r_instructions = 9\<rparr>]
        = Inr (''Per pair (same sample number), the plain build used '' @ format_f 1 lo @ ''% to ''
              @ format_f 1 hi @ ''% fewer cycles, median '' @ format_f 1 mid @ ''%.'' @ [newline])"
proof -
  let ?a = "\<lparr>r_build = ''atomic'', r_sample = 1, r_load = [], r_seconds = Fin 2, r_cycles = 7, r_instructions = 9\<rparr>"
  let ?p = "\<lparr>r_build = ''plain'', r_sample = 1, r_load = [], r_seconds = Fin 1, r_cycles = 0, r_instructions = 9\<rparr>"
  have "by_sample [?a, ?p] = [(1, [(''atomic'', ?a), (''plain'', ?p)])]"
    by (simp add: by_sample_def tally_def get_default_def)
  then have "mapE pair_less (map snd (filter (\<lambda>(n, v). length v = 2) (by_sample [?a, ?p]))) = Inr [percent_less (Fin 0)]"
    by (simp add: pair_less_def dict_index_def int_div_def to_float_def rnd_def)
  from pairs_text_spread [OF this] show ?thesis by (elim disjE conjE) (simp, blast)
qed

end
