(* ===== verification/Spec2Isabelle.thy ===== *)
theory Spec2Isabelle
  imports Instrument_Copies RC_Theorems Marker_Theorems Pairs Copies_Stage Allocations_Stage Profile_Graph Timing
begin

text \<open>
  A verification library for the measurement scripts of the Blorp repository.

  \<^bold>\<open>The program.\<close> The repository holds a compiler written in Blorp that emits C. Its Python programs, under
  \<^verbatim>\<open>src/blorp/scripts/attribution\<close>, say where the compiled compiler copies lists and strings, counts references,
  allocates and spends its time. They work in stages:
  \<^item> \<^verbatim>\<open>instrument_copies.py\<close> inserts hooks into the list and string helpers of the generated C, with a prelude in C
    whose hash table counts hits and units per call site; at exit the program prints the table.
  \<^item> \<^verbatim>\<open>patch_emit_markers.py\<close> patches a copy of the compiler's emitter, so that the C it emits has comments around
    each acquisition and drop of a reference, with the reason, the source and the pairing.
  \<^item> \<^verbatim>\<open>instrument_rc.py\<close> wraps the atomic operations of that C with counters: in kinds mode one per data kind and
    direction, in tagged mode one per function and category, with the tag passed through the helpers.
  \<^item> \<^verbatim>\<open>allocation-sites\<close> reads a report of allocation stacks, symbolizes it and prints tables by site and helper.
  \<^item> \<^verbatim>\<open>report.py\<close> reads the files of the stages (\<open>copies\<close>, \<open>rc\<close>, \<open>allocations\<close>, \<open>profile\<close>, \<open>timing\<close>) and prints
    Markdown tables.

  \<^bold>\<open>The language.\<close>
  \<^item> \<open>Py_Prelude\<close>: results (\<open>'a result\<close>, with a datatype for each exception and exit), \<open>bindE\<close>, \<open>foldE\<close>, \<open>mapE\<close>, strings,
    slices, \<open>find\<close>, \<open>join\<close>, \<open>split\<close>.
  \<^item> \<open>Py_Regex\<close>: the backtracking matcher of \<open>re\<close> as an executable function, with the relation \<open>spans\<close> of what a pattern
    can match. \<open>Py_Scan\<close>: \<open>match\<close>, \<open>search\<close>, \<open>finditer\<close>, \<open>sub\<close>; the locale \<open>scanner\<close> is the contract of anything
    that finds ordered pieces of a text, interpreted for the matcher and for the scan of C functions. \<open>Py_Greedy\<close>:
    which match is the first.
  \<^item> \<open>Py_Data\<close>: dictionaries in insertion order (locale \<open>dictionary\<close>), tables that add up (locale \<open>additive\<close>,
    interpreted for every kind of cell the scripts sum), decimal numerals. \<open>Py_Format\<close>, \<open>Py_Float\<close>: binary64 numbers
    and their printed form; the rounding of one operation is bounded.

  \<^bold>\<open>The scripts.\<close> Each definition has the name of the function it translates, or of a constant or a loop of it.
  \<^item> \<open>Instrument_Copies\<close>: \<^verbatim>\<open>instrument\<close>, \<^verbatim>\<open>split_statements\<close>, \<^verbatim>\<open>main\<close>. \<open>Prof_Table\<close>: the C hash table at 64-bit width, whose
    probe loop is a partial function, and the file it prints.
  \<^item> \<open>Instrument_RC\<close>, \<open>Instrument_RC_Props\<close>, \<open>RC_Theorems\<close>: all functions of \<^verbatim>\<open>instrument_rc.py\<close>; the locale
    \<open>registry\<close> is the contract of \<^verbatim>\<open>Categories\<close>.
  \<^item> \<open>Emit_Markers\<close>, \<open>Marked_Text\<close>, \<open>Emit_Markers_Props\<close>, \<open>Marker_Theorems\<close>: the patch script, and the Blorp functions
    that it inserts, over the ownership operations of \<^verbatim>\<open>own.brp\<close>.
  \<^item> \<open>Allocation_Sites\<close>, \<open>Sites\<close>: all functions of \<^verbatim>\<open>allocation-sites\<close>.
  \<^item> \<open>Report_Base\<close>, \<open>Report_Copies\<close>, \<open>Report_RC\<close>, \<open>Report_Stages\<close>: all functions of \<^verbatim>\<open>report.py\<close>, with the exact text of
    their tables; \<open>Report_Props\<close>, \<open>Report_Theorems\<close>, \<open>Report_Bounds\<close>, \<open>Pairs\<close>, \<open>Profile_Graph\<close>, \<open>Timing\<close>: their properties.
  \<^item> \<open>Prof_Report\<close>, \<open>Copies_Stage\<close>, \<open>Attribution\<close>, \<open>RC_Run\<close>, \<open>Sites_Table\<close>, \<open>Allocations_Stage\<close>: where the scripts
    meet.

  \<^bold>\<open>What is shown.\<close>
  \<^item> The instruments only add: the output has the input as a subsequence, or is equal to it outside the function
    bodies; stripping the markers from what the patched emitter writes, at every patched place and at any depth of
    loops and branches, gives what the unpatched one writes. The patch script and \<^verbatim>\<open>instrument_rc.py\<close> change no file when
    they fail; \<^verbatim>\<open>instrument_copies.py\<close> writes its output first, and exits with an error when a family of helpers did
    not occur.
  \<^item> The counters count: the hash table is the map from call sites to hits and units, as long as it is not full; the
    tags decode to the function and category of their region; the regions read from a marked body are the events that
    the marker functions wrote.
  \<^item> The stages account for what was measured, end to end: the \<open>rc\<close> stage has under every key the number of
    operations performed, the \<open>copies\<close> stage the hits and units of the rows at a place, the \<open>allocations\<close> stage,
    from the report of stacks through the two printed tables to the report's own, the sums of the stacks of each site
    and helper, the \<open>profile\<close> stage the samples of outermost frames.
  \<^item> The tables are right: rankings, partitions into groups, verdicts, minima, ranges and medians; a share is within
    0.051 of the exact percentage.
  \<^item> Where the code falls short, a theorem says how: a full hash table makes a hit diverge; two reasons of the
    markers, \<open>other_definition\<close> and \<open>before_control\<close>, have no group in the report; paired projections are in no row of
    the table of pairs; samples that the sampler did not list are in no class.

  \<^bold>\<open>Parameters and bounds.\<close> The file system is a function from paths to contents (or, for the report and
  \<^verbatim>\<open>allocation-sites\<close>, to contents or the text of an error). The programs on the search path and the
  symbolizer process are parameters; what is assumed of a symbolizer is \<open>answers\<close>: it prints the answers to its
  addresses in order. The emitter's function for the C of one operation is written
  in Blorp; its results are data of the marked emission, as trees whose leaves are arbitrary and whose nodes are the
  places the patch changes. Words of
  the C programs have 64 bits; the hash table has 65536 slots, and its theorems assume at most as many keys; shares are
  bounded for totals up to \<open>2 ^ 900\<close>, more than any sum of 64-bit counters in a file can be.

  \<^bold>\<open>Not modelled.\<close> Argument parsing by \<^verbatim>\<open>argparse\<close>; failures to write a file; the loading of \<^verbatim>\<open>allocation-sites\<close> as a
  module; what was printed before a late failure; Python's limit on the digits of an integer; text outside Latin-1; the
  sign of a floating-point zero, which the scripts do not produce. The stage driver \<^verbatim>\<open>run\<close> is a shell script, the
  benchmarks are workloads and \<^verbatim>\<open>bench_run.py\<close> runs processes; the compiler is written in Blorp, and only the ownership
  operations that the markers read are modelled, as data.
\<close>

section \<open>The patterns of the scripts\<close>

text \<open>Every pattern that a script gives to \<^verbatim>\<open>re\<close>, and those of them that scan a text for all matches.\<close>

definition scanned_patterns :: "re list" where
  "scanned_patterns = [list_take_left, list_borrowed, string_take_left, string_borrowed, SCAN, ATOMIC, MARKER, HELPER_CALL,
     LIST_RUNTIME_CALL, STRING_RUNTIME_CALL, BARE_HELPER, USER_FUNCTION, COMMENT_THEN_DEFINITION, FUNCTION_SUFFIX,
     Plus (Cls is_digit)]"

definition script_patterns :: "re list" where
  "script_patterns = scanned_patterns @ [LIST_RUNTIME_NAME, HELPER_NAME, USER_NAME, TRAILING_WORD, COMPILED_FUNCTION, LOCATED,
     SITE_LINE, TOTAL_LINE, NODE, THREAD, FRAME_LINE] @ map snd ALLOCATION_KINDS @ map snd PROFILE_CLASSES"

lemmas copies_patterns = list_take_left_def list_borrowed_def string_take_left_def string_borrowed_def LIST_TYPE_def
lemmas rc_patterns = SCAN_def ATOMIC_def MARKER_def HELPER_CALL_def LIST_RUNTIME_CALL_def STRING_RUNTIME_CALL_def BARE_HELPER_def
  USER_FUNCTION_def LIST_RUNTIME_NAME_def HELPER_NAME_def USER_NAME_def TRAILING_WORD_def HELPER_def LIST_OPERATION_def
lemmas stage_patterns = COMMENT_THEN_DEFINITION_def COMPILED_FUNCTION_def FUNCTION_SUFFIX_def LOCATED_def SITE_LINE_def TOTAL_LINE_def
  NODE_def THREAD_def FRAME_LINE_def ALLOCATION_KINDS_def PROFILE_CLASSES_def

text \<open>No pattern repeats an expression that can match the empty text.\<close>

lemma script_patterns_star_ok: "list_all star_ok script_patterns"
  by (simp add: script_patterns_def scanned_patterns_def copies_patterns rc_patterns stage_patterns)

text \<open>No pattern that is scanned for can match the empty text.\<close>

lemma scanned_patterns_consume: "list_all (\<lambda>r. 0 < min_len r) scanned_patterns"
  by (simp add: scanned_patterns_def copies_patterns rc_patterns stage_patterns)

end
